theory Spec2Isabelle
  imports Main
begin

section \<open>The UCI engine driver of Nibbler (src/90\_engine.js)\<close>

text \<open>
  The driver mediates between the hub and a chess engine subprocess. This theory embeds
  \<^verbatim>\<open>SearchParams\<close> and every method of the object built by \<^verbatim>\<open>NewEngine\<close> as HOL
  functions over an explicit state, and proves the properties of the search life cycle,
  the option queue and the inbound filters.

  Conventions of the embedding.
  \<^item> JavaScript strings are modelled as \<open>string\<close> (ASCII text, which is what the UCI
    protocol carries); \<^verbatim>\<open>toLowerCase\<close> maps \<open>A\<close>-\<open>Z\<close> and \<^verbatim>\<open>trim\<close> strips the ASCII
    white space characters.
  \<^item> Objects compared with \<^verbatim>\<open>===\<close> live in a store and are represented by their address:
    arrays of moves and SearchParams objects. Tree nodes are owned by the hub; a node is
    an opaque identity and everything the driver asks a node comes from the \<open>world\<close>.
  \<^item> Every effect performed on a collaborator (the engine's stdin, the logger, the host
    process, the hub) is appended to the \<open>trace\<close> of the state, in program order.
  \<^item> The only \<^verbatim>\<open>throw\<close> of the file is a branch returning \<open>Inl\<close>.
\<close>

subsection \<open>Strings\<close>

definition is_space :: "char \<Rightarrow> bool" where
  "is_space c = (c \<in> set [CHR 0x09, CHR 0x0A, CHR 0x0B, CHR 0x0C, CHR 0x0D, CHR '' ''])"

text \<open>\<^verbatim>\<open>String.prototype.trim\<close>.\<close>

definition trim :: "string \<Rightarrow> string" where
  "trim s = rev (dropWhile is_space (rev (dropWhile is_space s)))"

definition lower_char :: "char \<Rightarrow> char" where
  "lower_char c =
     (case map_of (zip ''ABCDEFGHIJKLMNOPQRSTUVWXYZ'' ''abcdefghijklmnopqrstuvwxyz'') c of
        Some d \<Rightarrow> d
      | None \<Rightarrow> c)"

text \<open>\<^verbatim>\<open>String.prototype.toLowerCase\<close>.\<close>

definition toLowerCase :: "string \<Rightarrow> string" where
  "toLowerCase s = map lower_char s"

text \<open>\<^verbatim>\<open>s.startsWith(p)\<close>.\<close>

definition startsWith :: "string \<Rightarrow> string \<Rightarrow> bool" where
  "startsWith s p = (take (length p) s = p)"

text \<open>\<^verbatim>\<open>s.indexOf(p)\<close>: the first position at which \<open>p\<close> occurs; \<open>None\<close> stands for \<open>-1\<close>.\<close>

fun indexOf :: "string \<Rightarrow> string \<Rightarrow> nat option" where
  "indexOf [] p = (if p = [] then Some 0 else None)"
| "indexOf (c # cs) p =
     (if startsWith (c # cs) p then Some 0 else map_option Suc (indexOf cs p))"

text \<open>\<^verbatim>\<open>s.includes(p)\<close>.\<close>

definition includes_str :: "string \<Rightarrow> string \<Rightarrow> bool" where
  "includes_str s p = (indexOf s p \<noteq> None)"

text \<open>\<^verbatim>\<open>s.slice(a, b)\<close> and \<^verbatim>\<open>s.slice(a)\<close> for indices that are not negative.\<close>

definition slice :: "string \<Rightarrow> nat \<Rightarrow> nat \<Rightarrow> string" where
  "slice s a b = (if b \<le> a then [] else take (b - a) (drop a s))"

definition slice_from :: "string \<Rightarrow> nat \<Rightarrow> string" where
  "slice_from s a = drop a s"

text \<open>\<^verbatim>\<open>arr.join(" ")\<close>.\<close>

fun join_sp :: "string list \<Rightarrow> string" where
  "join_sp [] = []"
| "join_sp [x] = x"
| "join_sp (x # y # ys) = x @ '' '' @ join_sp (y # ys)"

definition digit_char :: "nat \<Rightarrow> char" where
  "digit_char d = ''0123456789'' ! d"

fun show_nat :: "nat \<Rightarrow> string" where
  "show_nat n = (if n < 10 then [digit_char n] else show_nat (n div 10) @ [digit_char (n mod 10)])"

declare show_nat.simps [simp del]

text \<open>The text a template literal gives an integer: decimal digits, with a sign.\<close>

definition show_int :: "int \<Rightarrow> string" where
  "show_int i = (if i < 0 then ''-'' @ show_nat (nat (- i)) else show_nat (nat i))"

subsection \<open>The store: arrays of moves and SearchParams objects\<close>

type_synonym node = nat
type_synonym aref = nat
type_synonym pref = nat

record array_obj =
  elems :: "string list"
  frozen :: bool

record params_obj =
  node :: "node option"
  limit :: "int option"
  searchmoves :: aref
  params_frozen :: bool

text \<open>
  An address is an index into the list of its kind; allocation appends, so an address
  once given is never reused and the object behind it is found at the same index in
  every later store.
\<close>

record heap =
  arrays :: "array_obj list"
  params :: "params_obj list"

text \<open>
  \<^verbatim>\<open>NoSearch\<close> is built when the script loads: a frozen object holding a frozen empty
  array. It is the object at address 0, its array is the array at address 0.
\<close>

definition NoSearch :: pref where
  "NoSearch = 0"

definition heap_at_load :: heap where
  "heap_at_load =
     \<lparr>arrays = [\<lparr>elems = [], frozen = True\<rparr>],
      params = [\<lparr>node = None, limit = None, searchmoves = 0, params_frozen = True\<rparr>]\<rparr>"

definition array_elems :: "heap \<Rightarrow> aref \<Rightarrow> string list" where
  "array_elems h a = (if a < length (arrays h) then elems (arrays h ! a) else [])"

definition array_frozen :: "heap \<Rightarrow> aref \<Rightarrow> bool" where
  "array_frozen h a = (a < length (arrays h) \<and> frozen (arrays h ! a))"

text \<open>
  Reading the fields of the SearchParams object at an address. The driver only ever
  holds addresses of objects that exist; at any other address the reads give the empty
  values.
\<close>

definition params_node :: "heap \<Rightarrow> pref \<Rightarrow> node option" where
  "params_node h p = (if p < length (params h) then node (params h ! p) else None)"

definition params_limit :: "heap \<Rightarrow> pref \<Rightarrow> int option" where
  "params_limit h p = (if p < length (params h) then limit (params h ! p) else None)"

definition params_searchmoves :: "heap \<Rightarrow> pref \<Rightarrow> string list" where
  "params_searchmoves h p =
     (if p < length (params h) then array_elems h (searchmoves (params h ! p)) else [])"

definition alloc_array :: "heap \<Rightarrow> string list \<Rightarrow> aref \<times> heap" where
  "alloc_array h xs =
     (length (arrays h), h\<lparr>arrays := arrays h @ [\<lparr>elems = xs, frozen = False\<rparr>]\<rparr>)"

text \<open>\<^verbatim>\<open>Object.freeze(arr)\<close>.\<close>

definition freeze_array :: "heap \<Rightarrow> aref \<Rightarrow> heap" where
  "freeze_array h a =
     (if a < length (arrays h)
      then h\<lparr>arrays := (arrays h)[a := (arrays h ! a)\<lparr>frozen := True\<rparr>]\<rparr>
      else h)"

definition alloc_params :: "heap \<Rightarrow> params_obj \<Rightarrow> pref \<times> heap" where
  "alloc_params h obj = (length (params h), h\<lparr>params := params h @ [obj]\<rparr>)"

subsection \<open>The collaborators\<close>

text \<open>
  What the driver writes, logs, reports and calls, in the order it does so.
  \<open>StdinWrite c\<close> is a call \<^verbatim>\<open>exe.stdin.write(c)\<close> that returned.
\<close>

datatype event =
    StdinWrite string
  | LogLine string
  | ConsoleLog string
  | AlertSendFail
  | AlertSpawnError
  | AckSetoption string string
  | AckEngineStart string
  | ReceiveBestmove string "node option"
  | InfoReceive node string
  | ReceiveMisc string
  | ErrReceive string
  | KillAfterGrace

text \<open>
  The \<open>world\<close> is everything outside the file that the driver reads: the hub's tree
  (whether a node is destroyed, its terminal reason, the FEN of its root, its history in
  both notations, the picture of its board, which moves are legal there), the tables of
  options suppressed per engine kind, the clock, \<^verbatim>\<open>SafeString\<close>, whether
  \<^verbatim>\<open>child_process.spawn\<close> gives a process, and whether a write to the engine's stdin
  throws (it may depend on all that happened before and on the text written).
\<close>

record world =
  destroyed :: "node \<Rightarrow> bool"
  terminal_reason :: "node \<Rightarrow> string"
  root_fen :: "node \<Rightarrow> bool \<Rightarrow> string"
  history_old_format :: "node \<Rightarrow> string list"
  history :: "node \<Rightarrow> string list"
  graphic :: "node \<Rightarrow> string"
  legal :: "node \<Rightarrow> string \<Rightarrow> bool"
  suppressed_options_lc0 :: "string \<Rightarrow> bool"
  suppressed_options_ab :: "string \<Rightarrow> bool"
  performance_now :: nat
  safe_string :: "string \<Rightarrow> string"
  spawn :: "string \<Rightarrow> string list \<Rightarrow> nat option"
  stdin_write_throws :: "event list \<Rightarrow> string \<Rightarrow> bool"

record config =
  log_positions :: bool
  log_info_lines :: bool
  use_movetime :: bool
  searchmoves_buttons :: bool

subsection \<open>SearchParams\<close>

text \<open>
  Modelled from the spec: \<^verbatim>\<open>node.validate_searchmoves\<close> is a method of the tree node,
  defined outside this file. The spec has it return a fresh sequence containing only the
  moves legal in that position: a new array holding the legal ones among the given moves,
  in their order.
\<close>

definition validate_searchmoves :: "world \<Rightarrow> heap \<Rightarrow> node \<Rightarrow> aref \<Rightarrow> aref \<times> heap" where
  "validate_searchmoves w h n a = alloc_array h (filter (legal w n) (array_elems h a))"

text \<open>
  \<^verbatim>\<open>SearchParams(node, limit, searchmoves)\<close>. The third argument is \<open>Some a\<close> when the
  caller passes the array at address \<open>a\<close> and \<open>None\<close> when it passes anything that is not
  an array.
\<close>

definition SearchParams ::
  "world \<Rightarrow> heap \<Rightarrow> node option \<Rightarrow> int option \<Rightarrow> aref option \<Rightarrow> pref \<times> heap" where
  "SearchParams w h nd lim sm =
     (case nd of
        None \<Rightarrow> (NoSearch, h)
      | Some n \<Rightarrow>
          (case (case sm of
                   Some a \<Rightarrow> validate_searchmoves w h n a
                 | None \<Rightarrow> alloc_array h [])
           of (validated, h1) \<Rightarrow>
             alloc_params (freeze_array h1 validated)
               \<lparr>node = Some n, limit = lim, searchmoves = validated, params_frozen = True\<rparr>))"

text \<open>
  Modelled from the spec: \<^verbatim>\<open>CompareArrays\<close> is a helper defined outside this file. The
  spec speaks of the same or different searchmoves: two arrays compare equal when they
  hold the same elements in the same order.
\<close>

definition CompareArrays :: "string list \<Rightarrow> string list \<Rightarrow> bool" where
  "CompareArrays xs ys = (xs = ys)"

subsection \<open>The state of the driver\<close>

text \<open>
  The fields of the object \<^verbatim>\<open>eng\<close>, the two counters \<^verbatim>\<open>hub.info_handler.engine_cycle\<close>
  and \<^verbatim>\<open>engine_subcycle\<close> that the driver increments, and the trace. \<open>exe\<close> is the
  handle of the subprocess, \<open>None\<close> for \<^verbatim>\<open>null\<close>; the three searches are addresses of
  SearchParams objects.
\<close>

record engine =
  exe :: "nat option"
  last_send :: "string option"
  unresolved_stop_time :: "nat option"
  ever_received_uciok :: bool
  ever_received_readyok :: bool
  have_quit :: bool
  suppress_cycle_info :: "int option"
  sent_options :: "string \<rightharpoonup> string"
  setoption_queue :: "string list"
  warned_send_fail :: bool
  leelaish :: bool
  search_running :: pref
  search_desired :: pref
  search_completed :: pref
  engine_cycle :: int
  engine_subcycle :: int
  trace :: "event list"

text \<open>\<^verbatim>\<open>NewEngine(hub)\<close>; the arguments are the counters of the hub's info handler.\<close>

definition NewEngine :: "int \<Rightarrow> int \<Rightarrow> engine" where
  "NewEngine cyc sub =
     \<lparr>exe = None, last_send = None, unresolved_stop_time = None,
      ever_received_uciok = False, ever_received_readyok = False, have_quit = False,
      suppress_cycle_info = None, sent_options = Map.empty, setoption_queue = [],
      warned_send_fail = False, leelaish = False,
      search_running = NoSearch, search_desired = NoSearch, search_completed = NoSearch,
      engine_cycle = cyc, engine_subcycle = sub, trace = []\<rparr>"

definition emit :: "engine \<Rightarrow> event \<Rightarrow> engine" where
  "emit s e = s\<lparr>trace := trace s @ [e]\<rparr>"

definition Log :: "engine \<Rightarrow> string \<Rightarrow> engine" where
  "Log s txt = emit s (LogLine txt)"

subsection \<open>Options: the acknowledgement and 960 mode\<close>

text \<open>
  \<^verbatim>\<open>send_ack_setoption_to_main_process(name)\<close>. The object it also returns is used by no
  caller in this file.
\<close>

definition send_ack_setoption_to_main_process :: "engine \<Rightarrow> string \<Rightarrow> engine" where
  "send_ack_setoption_to_main_process s name =
     (let key = toLowerCase name;
          val = (case sent_options s key of Some v \<Rightarrow> v | None \<Rightarrow> [])
      in emit s (AckSetoption key val))"

definition in_960_mode :: "engine \<Rightarrow> bool" where
  "in_960_mode s = (sent_options s ''uci_chess960'' = Some ''true'')"

subsection \<open>send\<close>

text \<open>
  The block of \<^verbatim>\<open>send\<close> that reads the name and the value out of a \<^verbatim>\<open>setoption\<close>
  line, records them and acknowledges.
\<close>

definition record_setoption :: "engine \<Rightarrow> string \<Rightarrow> engine" where
  "record_setoption s msg =
     (let lower = toLowerCase msg in
      case indexOf lower ''name'' of
        None \<Rightarrow> s
      | Some i1 \<Rightarrow>
          (case indexOf lower ''value'' of
             None \<Rightarrow> s
           | Some i2 \<Rightarrow>
               if i2 > i1 then
                 (let key = trim (slice lower (i1 + 5) (i2 - 1));
                      val = trim (slice_from msg (i2 + 6))
                  in if length key > 0
                     then send_ack_setoption_to_main_process
                            (s\<lparr>sent_options := (sent_options s)(key \<mapsto> val)\<rparr>) key
                     else s)
               else s))"

text \<open>The \<^verbatim>\<open>catch\<close> block of \<^verbatim>\<open>send\<close>.\<close>

definition write_failed :: "engine \<Rightarrow> string \<Rightarrow> engine" where
  "write_failed s msg =
     (let s1 = Log s (''(failed) --> '' @ msg) in
      if last_send s1 \<noteq> None \<and> \<not> warned_send_fail s1
      then (emit s1 AlertSendFail)\<lparr>warned_send_fail := True\<rparr>
      else s1)"

text \<open>The \<^verbatim>\<open>try\<close> block of \<^verbatim>\<open>send\<close>: the message, then the newline.\<close>

definition write_line :: "world \<Rightarrow> engine \<Rightarrow> string \<Rightarrow> engine" where
  "write_line w s msg =
     (if stdin_write_throws w (trace s) msg then write_failed s msg
      else
        (let s1 = emit s (StdinWrite msg) in
         if stdin_write_throws w (trace s1) [CHR 0x0A] then write_failed s1 msg
         else (Log (emit s1 (StdinWrite [CHR 0x0A])) (''--> '' @ msg))\<lparr>last_send := Some msg\<rparr>))"

definition send :: "world \<Rightarrow> heap \<Rightarrow> engine \<Rightarrow> string \<Rightarrow> bool \<Rightarrow> engine" where
  "send w h s msg0 force =
     (let msg = trim msg0 in
      if startsWith msg ''setoption'' \<and> params_node h (search_running s) \<noteq> None \<and> \<not> force
      then s\<lparr>setoption_queue := setoption_queue s @ [msg]\<rparr>
      else
        (let s1 = (if startsWith msg ''setoption'' then record_setoption s msg else s) in
         if exe s1 = None then s1 else write_line w s1 msg))"

subsection \<open>send\_desired\<close>

datatype error = SendDesiredWhileRunning

definition start_fen :: string where
  "start_fen = ''rnbqkbnr/pppppppp/8/8/8/8/PPPPPPPP/RNBQKBNR w KQkq - 0 1''"

text \<open>The \<^verbatim>\<open>position\<close> line \<^verbatim>\<open>send_desired\<close> builds for the node \<open>n\<close>.\<close>

definition position_command :: "world \<Rightarrow> engine \<Rightarrow> node \<Rightarrow> string" where
  "position_command w s n =
     (let fen = root_fen w n (\<not> in_960_mode s);
          setup0 = ''fen '' @ fen;
          setup1 = (if \<not> in_960_mode s \<and> setup0 = ''fen '' @ start_fen
                    then ''startpos'' else setup0);
          moves = (if \<not> in_960_mode s then history_old_format w n else history w n)
      in if length moves = 0 then ''position '' @ setup1
         else ''position '' @ setup1 @ '' moves '' @ join_sp moves)"

text \<open>
  The \<^verbatim>\<open>go\<close> line \<^verbatim>\<open>send_desired\<close> builds. The test \<^verbatim>\<open>!n\<close> holds of \<^verbatim>\<open>null\<close> and
  of 0.
\<close>

definition go_command :: "config \<Rightarrow> heap \<Rightarrow> engine \<Rightarrow> string" where
  "go_command cfg h s =
     (let n = params_limit h (search_desired s);
          s0 = (case n of
                  None \<Rightarrow> ''go infinite''
                | Some k \<Rightarrow>
                    if k = 0 then ''go infinite''
                    else if use_movetime cfg then ''go movetime '' @ show_int k
                    else ''go nodes '' @ show_int k)
      in if searchmoves_buttons cfg \<and> length (params_searchmoves h (search_desired s)) > 0
         then foldl (\<lambda>acc move. acc @ '' '' @ move) (s0 @ '' searchmoves'')
                (params_searchmoves h (search_desired s))
         else s0)"

definition send_desired :: "config \<Rightarrow> world \<Rightarrow> heap \<Rightarrow> engine \<Rightarrow> error + engine" where
  "send_desired cfg w h s =
     (if params_node h (search_running s) \<noteq> None then Inl SendDesiredWhileRunning
      else
        (case params_node h (search_desired s) of
           None \<Rightarrow> Inr (s\<lparr>search_running := NoSearch, search_desired := NoSearch\<rparr>)
         | Some n \<Rightarrow>
             if destroyed w n \<or> terminal_reason w n \<noteq> []
             then Inr (s\<lparr>search_running := NoSearch, search_desired := NoSearch\<rparr>)
             else
               (let s1 = send w h s (position_command w s n) False;
                    s2 = (if log_positions cfg then Log s1 (graphic w n) else s1);
                    s3 = send w h s2 (go_command cfg h s2) False
                in Inr (s3\<lparr>search_running := search_desired s3,
                           suppress_cycle_info := None,
                           engine_cycle := engine_cycle s3 + 1,
                           engine_subcycle := engine_subcycle s3 + 1\<rparr>))))"

subsection \<open>set\_search\_desired, the queue, ucinewgame\<close>

definition set_search_desired ::
  "config \<Rightarrow> world \<Rightarrow> heap \<Rightarrow> engine \<Rightarrow> node option \<Rightarrow> int option \<Rightarrow> aref option
     \<Rightarrow> error + (heap \<times> engine)" where
  "set_search_desired cfg w h s nd lim sm =
     (if \<not> ever_received_uciok s \<or> \<not> ever_received_readyok s
      then Inr (h, emit s (ConsoleLog ''set_search_desired() aborted - too early''))
      else
        (case SearchParams w h nd lim sm of (p, h1) \<Rightarrow>
           if params_node h1 (search_desired s) = params_node h1 p
              \<and> params_limit h1 (search_desired s) = params_limit h1 p
              \<and> CompareArrays (params_searchmoves h1 (search_desired s))
                    (params_searchmoves h1 p)
           then Inr (h1, s)
           else
             (let s1 = s\<lparr>search_desired := p\<rparr> in
              if params_node h1 (search_running s1) \<noteq> None then
                (let s2 = send w h1 s1 ''stop'' False in
                 Inr (h1,
                   if unresolved_stop_time s2 = None \<or> unresolved_stop_time s2 = Some 0
                   then s2\<lparr>unresolved_stop_time := Some (performance_now w)\<rparr>
                   else s2))
              else if params_node h1 (search_desired s1) \<noteq> None then
                (case send_desired cfg w h1 s1 of
                   Inl e \<Rightarrow> Inl e
                 | Inr s2 \<Rightarrow> Inr (h1, s2))
              else Inr (h1, s1))))"

text \<open>
  \<^verbatim>\<open>send_queued_setoptions\<close>: the loop sends with the force flag, and a forced send
  leaves the queue as it is, so the loop runs over the queue as it stands on entry.
\<close>

definition send_queued_setoptions :: "world \<Rightarrow> heap \<Rightarrow> engine \<Rightarrow> engine" where
  "send_queued_setoptions w h s =
     (foldl (\<lambda>s' msg. send w h s' msg True) s (setoption_queue s))\<lparr>setoption_queue := []\<rparr>"

definition send_ucinewgame :: "world \<Rightarrow> heap \<Rightarrow> engine \<Rightarrow> engine" where
  "send_ucinewgame w h s =
     (if \<not> ever_received_uciok s \<or> \<not> ever_received_readyok s
      then emit s (ConsoleLog ''send_ucinewgame() aborted - too early'')
      else send w h s ''ucinewgame'' False)"

subsection \<open>Inbound lines\<close>

definition handle_bestmove_line ::
  "config \<Rightarrow> world \<Rightarrow> heap \<Rightarrow> engine \<Rightarrow> string \<Rightarrow> error + engine" where
  "handle_bestmove_line cfg w h s line =
     (let s1 = s\<lparr>search_completed := search_running s\<rparr>;
          s2 = s1\<lparr>search_running := NoSearch\<rparr>;
          s3 = s2\<lparr>unresolved_stop_time := None\<rparr>;
          no_new_search = (search_desired s3 = search_completed s3
                           \<or> params_node h (search_desired s3) = None);
          report_bestmove = (search_desired s3 = search_completed s3
                             \<and> params_node h (search_completed s3) \<noteq> None)
      in if no_new_search then
           (let s4 = s3\<lparr>search_desired := NoSearch\<rparr> in
            if report_bestmove then
              (let s5 = Log s4 (''< '' @ line);
                   s6 = send_queued_setoptions w h s5
               in Inr (emit s6 (ReceiveBestmove line (params_node h (search_completed s6)))))
            else
              (let s5 = Log s4 (''(ignore halted) < '' @ line)
               in Inr (send_queued_setoptions w h s5)))
         else
           (let s4 = Log s3 (''(ignore old) < '' @ line);
                s5 = send_queued_setoptions w h s4
            in send_desired cfg w h s5))"

definition handle_info_line :: "config \<Rightarrow> world \<Rightarrow> heap \<Rightarrow> engine \<Rightarrow> string \<Rightarrow> engine" where
  "handle_info_line cfg w h s line =
     (case params_node h (search_running s) of
        None \<Rightarrow> if log_info_lines cfg then Log s (''(ignore !node) < '' @ line) else s
      | Some n \<Rightarrow>
          if destroyed w n
          then (if log_info_lines cfg then Log s (''(ignore destroyed) < '' @ line) else s)
          else if \<not> leelaish s \<and> params_node h (search_desired s) \<noteq> params_node h (search_running s)
          then (if log_info_lines cfg then Log s (''(ignore A/B late) < '' @ line) else s)
          else if suppress_cycle_info s = Some (engine_cycle s)
          then (if log_info_lines cfg then Log s (''(ignore suppressed) < '' @ line) else s)
          else emit s (InfoReceive n line))"

subsection \<open>Convenience operations\<close>

text \<open>
  \<^verbatim>\<open>setoption(name, value)\<close>; the arguments are the texts the template literal puts
  into the line. The line built is returned with the state.
\<close>

definition setoption :: "world \<Rightarrow> heap \<Rightarrow> engine \<Rightarrow> string \<Rightarrow> string \<Rightarrow> engine \<times> string" where
  "setoption w h s name val =
     (let line = ''setoption name '' @ name @ '' value '' @ val in (send w h s line False, line))"

definition maybe_setoption_fail_reason :: "world \<Rightarrow> engine \<Rightarrow> string \<Rightarrow> string \<Rightarrow> string" where
  "maybe_setoption_fail_reason w s name val =
     (if leelaish s \<and> suppressed_options_lc0 w (toLowerCase name)
      then ''Not sent, wrong engine type''
      else if \<not> leelaish s \<and> suppressed_options_ab w (toLowerCase name)
      then ''Not sent, wrong engine type''
      else [])"

definition maybe_setoption :: "world \<Rightarrow> heap \<Rightarrow> engine \<Rightarrow> string \<Rightarrow> string \<Rightarrow> engine \<times> string" where
  "maybe_setoption w h s name val =
     (let fail_reason = maybe_setoption_fail_reason w s name val in
      if fail_reason \<noteq> [] then (send_ack_setoption_to_main_process s name, fail_reason)
      else setoption w h s name val)"

definition pressbutton :: "world \<Rightarrow> heap \<Rightarrow> engine \<Rightarrow> string \<Rightarrow> engine \<times> string" where
  "pressbutton w h s name =
     (let line = ''setoption name '' @ name in (send w h s line False, line))"

subsection \<open>Launching, the line readers, shutting down\<close>

text \<open>
  \<^verbatim>\<open>setup(filepath, args)\<close>, up to the point where it attaches the two line readers;
  the readers themselves are the next two functions.
\<close>

definition engine_setup :: "world \<Rightarrow> engine \<Rightarrow> string \<Rightarrow> string list \<Rightarrow> engine" where
  "engine_setup w s filepath args =
     (let s1 = Log (Log (Log s []) (''Launching '' @ filepath)) [] in
      case spawn w filepath args of
        None \<Rightarrow> emit s1 AlertSpawnError
      | Some pid \<Rightarrow>
          (let s2 = s1\<lparr>exe := Some pid\<rparr>;
               s3 = emit s2 (AckEngineStart filepath);
               s4 = s3\<lparr>sent_options := Map.empty\<rparr>
           in foldl send_ack_setoption_to_main_process s4
                [''WeightsFile'', ''SyzygyPath'', ''Threads'', ''Hash'', ''MultiPV'',
                 ''Backend'', ''Temperature'', ''TempDecayMoves'']))"

text \<open>The reader of the engine's stderr.\<close>

definition err_scanner_line :: "world \<Rightarrow> engine \<Rightarrow> string \<Rightarrow> engine" where
  "err_scanner_line w s line =
     (if have_quit s then s
      else emit (Log s (''. '' @ line)) (ErrReceive (safe_string w line)))"

text \<open>The reader of the engine's stdout: the dispatch on the head of the line.\<close>

definition scanner_line :: "config \<Rightarrow> world \<Rightarrow> heap \<Rightarrow> engine \<Rightarrow> string \<Rightarrow> error + engine" where
  "scanner_line cfg w h s line =
     (if have_quit s then Inr s
      else if startsWith line ''bestmove'' then handle_bestmove_line cfg w h s line
      else if startsWith line ''info'' then Inr (handle_info_line cfg w h s line)
      else
        (let s1 = Log s (''< '' @ line);
             s2 = (if startsWith line ''option'' \<and> includes_str (toLowerCase line) ''uci_chess960''
                   then fst (setoption w h s1 ''UCI_Chess960'' ''true'') else s1);
             s3 = (if startsWith line ''uciok'' then s2\<lparr>ever_received_uciok := True\<rparr> else s2);
             s4 = (if startsWith line ''readyok'' then s3\<lparr>ever_received_readyok := True\<rparr> else s3)
         in Inr (emit s4 (ReceiveMisc (safe_string w line)))))"

text \<open>
  \<^verbatim>\<open>shutdown()\<close>; \<open>KillAfterGrace\<close> records that the kill of the subprocess has been
  scheduled.
\<close>

definition shutdown :: "world \<Rightarrow> heap \<Rightarrow> engine \<Rightarrow> engine" where
  "shutdown w h s =
     (let s1 = s\<lparr>have_quit := True\<rparr>;
          s2 = send w h s1 ''quit'' False
      in if exe s2 \<noteq> None then emit s2 KillAfterGrace else s2)"

subsection \<open>Reading a trace\<close>

text \<open>The texts written to the engine's stdin, in order.\<close>

fun stdin_chunks :: "event list \<Rightarrow> string list" where
  "stdin_chunks [] = []"
| "stdin_chunks (StdinWrite c # es) = c # stdin_chunks es"
| "stdin_chunks (e # es) = stdin_chunks es"

text \<open>What was done between an earlier state and a later one.\<close>

definition emitted :: "engine \<Rightarrow> engine \<Rightarrow> event list" where
  "emitted s s' = drop (length (trace s)) (trace s')"

text \<open>A line as it goes down the pipe: its text, then the newline.\<close>

definition wire :: "string \<Rightarrow> string list" where
  "wire msg = [msg, [CHR 0x0A]]"

text \<open>The calls of the hub's bestmove sink and of its info handler, in order.\<close>

fun hub_bestmoves :: "event list \<Rightarrow> (string \<times> node option) list" where
  "hub_bestmoves [] = []"
| "hub_bestmoves (ReceiveBestmove l n # es) = (l, n) # hub_bestmoves es"
| "hub_bestmoves (e # es) = hub_bestmoves es"

fun hub_infos :: "event list \<Rightarrow> (node \<times> string) list" where
  "hub_infos [] = []"
| "hub_infos (InfoReceive n l # es) = (n, l) # hub_infos es"
| "hub_infos (e # es) = hub_infos es"

text \<open>The number of texts written to stdin that begin with \<^verbatim>\<open>go\<close>.\<close>

fun go_lines :: "event list \<Rightarrow> nat" where
  "go_lines [] = 0"
| "go_lines (StdinWrite c # es) = (if startsWith c ''go'' then 1 else 0) + go_lines es"
| "go_lines (e # es) = go_lines es"

subsection \<open>Conditions on the surroundings\<close>

text \<open>A pipe in good health: no write to stdin throws.\<close>

definition pipe_never_throws :: "world \<Rightarrow> bool" where
  "pipe_never_throws w = (\<forall>tr c. \<not> stdin_write_throws w tr c)"

text \<open>
  The store as the script leaves it: \<^verbatim>\<open>NoSearch\<close> is there with an empty node, and the
  array of every SearchParams object exists. The three searches of the driver are
  addresses of objects of the store.
\<close>

definition heap_ok :: "heap \<Rightarrow> bool" where
  "heap_ok h =
     (0 < length (params h) \<and> node (params h ! 0) = None
      \<and> list_all (\<lambda>obj. searchmoves obj < length (arrays h)) (params h))"

definition refs_ok :: "heap \<Rightarrow> engine \<Rightarrow> bool" where
  "refs_ok h s =
     (search_running s < length (params h) \<and> search_desired s < length (params h)
      \<and> search_completed s < length (params h))"

text \<open>The queue holds what \<^verbatim>\<open>send\<close> pushed: trimmed \<^verbatim>\<open>setoption\<close> lines.\<close>

definition queue_ok :: "engine \<Rightarrow> bool" where
  "queue_ok s = list_all (\<lambda>m. startsWith m ''setoption'' \<and> trim m = m) (setoption_queue s)"

subsection \<open>The driver as a machine\<close>

text \<open>
  One constructor for each method of the driver and for each of its two line readers;
  \<open>step\<close> performs the call, \<open>run\<close> a sequence of calls, each in the world of its
  moment. An uncaught \<^verbatim>\<open>throw\<close> ends the run.
\<close>

datatype call =
    Send string bool
  | SendDesired
  | SetSearchDesired "node option" "int option" "aref option"
  | SendQueuedSetoptions
  | SendUcinewgame
  | HandleBestmoveLine string
  | HandleInfoLine string
  | Setoption string string
  | MaybeSetoption string string
  | Pressbutton string
  | SendAckSetoption string
  | Setup string "string list"
  | StdoutLine string
  | StderrLine string
  | Shutdown

definition with_heap :: "heap \<Rightarrow> error + engine \<Rightarrow> error + heap \<times> engine" where
  "with_heap h r = (case r of Inl e \<Rightarrow> Inl e | Inr s \<Rightarrow> Inr (h, s))"

fun step :: "config \<Rightarrow> world \<Rightarrow> heap \<times> engine \<Rightarrow> call \<Rightarrow> error + heap \<times> engine" where
  "step cfg w (h, s) (Send msg force) = Inr (h, send w h s msg force)"
| "step cfg w (h, s) SendDesired = with_heap h (send_desired cfg w h s)"
| "step cfg w (h, s) (SetSearchDesired nd lim sm) = set_search_desired cfg w h s nd lim sm"
| "step cfg w (h, s) SendQueuedSetoptions = Inr (h, send_queued_setoptions w h s)"
| "step cfg w (h, s) SendUcinewgame = Inr (h, send_ucinewgame w h s)"
| "step cfg w (h, s) (HandleBestmoveLine line) = with_heap h (handle_bestmove_line cfg w h s line)"
| "step cfg w (h, s) (HandleInfoLine line) = Inr (h, handle_info_line cfg w h s line)"
| "step cfg w (h, s) (Setoption name val) = Inr (h, fst (setoption w h s name val))"
| "step cfg w (h, s) (MaybeSetoption name val) = Inr (h, fst (maybe_setoption w h s name val))"
| "step cfg w (h, s) (Pressbutton name) = Inr (h, fst (pressbutton w h s name))"
| "step cfg w (h, s) (SendAckSetoption name) = Inr (h, send_ack_setoption_to_main_process s name)"
| "step cfg w (h, s) (Setup filepath args) = Inr (h, engine_setup w s filepath args)"
| "step cfg w (h, s) (StdoutLine line) = with_heap h (scanner_line cfg w h s line)"
| "step cfg w (h, s) (StderrLine line) = Inr (h, err_scanner_line w s line)"
| "step cfg w (h, s) Shutdown = Inr (h, shutdown w h s)"

fun run :: "config \<Rightarrow> heap \<times> engine \<Rightarrow> (world \<times> call) list \<Rightarrow> error + heap \<times> engine" where
  "run cfg st [] = Inr st"
| "run cfg st ((w, c) # cs) =
     (case step cfg w st c of Inl e \<Rightarrow> Inl e | Inr st' \<Rightarrow> run cfg st' cs)"

text \<open>A call by which the hub itself pushes a \<^verbatim>\<open>go\<close> line through \<^verbatim>\<open>send\<close>.\<close>

fun raw_go :: "call \<Rightarrow> bool" where
  "raw_go (Send msg force) = startsWith (trim msg) ''go''"
| "raw_go c = False"

subsection \<open>A small world for concrete runs\<close>

text \<open>
  Every node is at the initial position with no history; node 9 is destroyed;
  every move is legal except \<open>zzzz\<close>; the pipe is in good health.
\<close>

definition demo_world :: world where
  "demo_world =
     \<lparr>destroyed = (\<lambda>n. n = 9),
      terminal_reason = (\<lambda>n. []),
      root_fen = (\<lambda>n friendly. start_fen),
      history_old_format = (\<lambda>n. []),
      history = (\<lambda>n. []),
      graphic = (\<lambda>n. []),
      legal = (\<lambda>n m. m \<noteq> ''zzzz''),
      suppressed_options_lc0 = (\<lambda>k. False),
      suppressed_options_ab = (\<lambda>k. False),
      performance_now = 7,
      safe_string = (\<lambda>x. x),
      spawn = (\<lambda>path args. Some 1),
      stdin_write_throws = (\<lambda>tr c. False)\<rparr>"

definition demo_config :: config where
  "demo_config =
     \<lparr>log_positions = False, log_info_lines = False, use_movetime = False,
      searchmoves_buttons = True\<rparr>"

subsection \<open>Vocabulary of the proofs\<close>

text \<open>
  A \<^verbatim>\<open>setoption\<close> line is held back when a search is running and the force flag is
  not set.
\<close>

definition held_back :: "heap \<Rightarrow> engine \<Rightarrow> string \<Rightarrow> bool \<Rightarrow> bool" where
  "held_back h s msg force =
     (startsWith (trim msg) ''setoption'' \<and> params_node h (search_running s) \<noteq> None \<and> \<not> force)"

text \<open>The trace only grows: a later state extends an earlier one.\<close>

definition extends :: "engine \<Rightarrow> engine \<Rightarrow> bool" where
  "extends s s' = (take (length (trace s)) (trace s') = trace s)"

text \<open>
  The desired search can be launched: its node is there, not destroyed and not terminal.
\<close>

definition launches :: "world \<Rightarrow> heap \<Rightarrow> engine \<Rightarrow> bool" where
  "launches w h s =
     (case params_node h (search_desired s) of
        None \<Rightarrow> False
      | Some n \<Rightarrow> \<not> destroyed w n \<and> terminal_reason w n = [])"

text \<open>
  The moves \<^verbatim>\<open>SearchParams\<close> keeps for the node \<open>n\<close> when called with the third
  argument \<open>sm\<close>.
\<close>

definition validated_moves :: "world \<Rightarrow> heap \<Rightarrow> node \<Rightarrow> aref option \<Rightarrow> string list" where
  "validated_moves w h n sm =
     (case sm of None \<Rightarrow> [] | Some a \<Rightarrow> filter (legal w n) (array_elems h a))"

text \<open>The store after \<^verbatim>\<open>SearchParams\<close> has built an object for the node \<open>n\<close>.\<close>

definition heap_with_search :: "world \<Rightarrow> heap \<Rightarrow> node \<Rightarrow> int option \<Rightarrow> aref option \<Rightarrow> heap" where
  "heap_with_search w h n lim sm =
     \<lparr>arrays = arrays h @ [\<lparr>elems = validated_moves w h n sm, frozen = True\<rparr>],
      params = params h @ [\<lparr>node = Some n, limit = lim, searchmoves = length (arrays h),
                             params_frozen = True\<rparr>]\<rparr>"

text \<open>
  The comparison \<^verbatim>\<open>set_search_desired\<close> makes between the desired search and the new
  parameters: the same node, the same limit, the same moves.
\<close>

definition same_search :: "heap \<Rightarrow> pref \<Rightarrow> pref \<Rightarrow> bool" where
  "same_search h d p =
     (params_node h d = params_node h p \<and> params_limit h d = params_limit h p
      \<and> params_searchmoves h d = params_searchmoves h p)"

text \<open>
  The state \<^verbatim>\<open>send_desired\<close> leaves when it launches the desired search at the node
  \<open>n\<close>: the \<^verbatim>\<open>position\<close> line sent, the board logged if the configuration asks for it,
  the \<^verbatim>\<open>go\<close> line sent, and the four assignments made.
\<close>

definition launched :: "config \<Rightarrow> world \<Rightarrow> heap \<Rightarrow> engine \<Rightarrow> node \<Rightarrow> engine" where
  "launched cfg w h s n =
     (send w h
        (if log_positions cfg
         then Log (send w h s (position_command w s n) False) (graphic w n)
         else send w h s (position_command w s n) False)
        (go_command cfg h s) False)
       \<lparr>search_running := search_desired s, suppress_cycle_info := None,
        engine_cycle := engine_cycle s + 1,
        engine_subcycle := engine_subcycle s + 1\<rparr>"

subsection \<open>Concrete stores and states\<close>

text \<open>
  A store with two searches besides \<^verbatim>\<open>NoSearch\<close>: object 1 searches node 5 to 10000
  nodes, object 2 searches node 6 without limit, restricted to \<open>e2e4\<close>. Array 3 is an
  array of the hub, not frozen, holding one legal and one illegal move.
\<close>

definition demo_heap :: heap where
  "demo_heap =
     \<lparr>arrays = [\<lparr>elems = [], frozen = True\<rparr>,
                \<lparr>elems = [], frozen = True\<rparr>,
                \<lparr>elems = [''e2e4''], frozen = True\<rparr>,
                \<lparr>elems = [''e2e4'', ''zzzz''], frozen = False\<rparr>],
      params = [\<lparr>node = None, limit = None, searchmoves = 0, params_frozen = True\<rparr>,
                \<lparr>node = Some 5, limit = Some 10000, searchmoves = 1, params_frozen = True\<rparr>,
                \<lparr>node = Some 6, limit = None, searchmoves = 2, params_frozen = True\<rparr>]\<rparr>"

text \<open>State 1, inactive: an engine is attached and both handshakes have arrived.\<close>

definition demo_idle :: engine where
  "demo_idle =
     (NewEngine 0 0)\<lparr>exe := Some 1, ever_received_uciok := True,
                      ever_received_readyok := True\<rparr>"

text \<open>State 2, running: search 1 is running and is the desired one.\<close>

definition demo_running :: engine where
  "demo_running =
     demo_idle\<lparr>search_running := 1, search_desired := 1, engine_cycle := 1,
                engine_subcycle := 1, last_send := Some ''go nodes 10000'',
                trace := [StdinWrite ''position startpos'', StdinWrite [CHR 0x0A],
                          LogLine ''--> position startpos'',
                          StdinWrite ''go nodes 10000'', StdinWrite [CHR 0x0A],
                          LogLine ''--> go nodes 10000'']\<rparr>"

text \<open>
  State 3, changing: search 1 is running, search 2 is desired, and the \<^verbatim>\<open>stop\<close> has
  been written.
\<close>

definition demo_changing :: engine where
  "demo_changing =
     demo_running\<lparr>search_desired := 2, unresolved_stop_time := Some 7,
                   last_send := Some ''stop'',
                   trace := trace demo_running @
                     [StdinWrite ''stop'', StdinWrite [CHR 0x0A], LogLine ''--> stop'']\<rparr>"

section \<open>Basic facts\<close>

subsection \<open>Facts about strings\<close>

lemma dropWhile_snoc_keep: "\<not> P c \<Longrightarrow> dropWhile P (xs @ [c]) = dropWhile P xs @ [c]"
  by (induction xs) auto

lemma trim_Cons: "\<not> is_space c \<Longrightarrow> trim (c # cs) = c # rev (dropWhile is_space (rev cs))"
  by (simp add: trim_def dropWhile_snoc_keep)

lemma trim_idem: "trim (trim s) = trim s"
proof (cases "dropWhile is_space s")
  case Nil
  show ?thesis unfolding trim_def Nil by simp
next
  case (Cons c cs)
  then have c: "\<not> is_space c"
    by (metis hd_dropWhile list.sel(1) list.distinct(1))
  have t: "trim s = c # rev (dropWhile is_space (rev cs))"
    using Cons c by (simp add: trim_def dropWhile_snoc_keep)
  show ?thesis
    unfolding t using c by (simp add: trim_Cons)
qed

lemma startsWith_Cons: "startsWith (c # cs) (d # p) = (c = d \<and> startsWith cs p)"
  by (auto simp: startsWith_def)

lemma startsWith_trim_head:
  "\<not> is_space c \<Longrightarrow> c \<noteq> d \<Longrightarrow> \<not> startsWith (trim (c # cs)) (d # p)"
  by (simp add: trim_Cons startsWith_Cons)

lemma lower_char_idem: "lower_char (lower_char c) = lower_char c"
  by (simp add: lower_char_def split: option.splits if_splits)

lemma toLowerCase_idem: "toLowerCase (toLowerCase s) = toLowerCase s"
  by (simp add: toLowerCase_def lower_char_idem)

subsection \<open>What each method leaves alone, and what it adds to the trace\<close>

lemma stdin_chunks_append: "stdin_chunks (xs @ ys) = stdin_chunks xs @ stdin_chunks ys"
  by (induction xs rule: stdin_chunks.induct) auto

lemma hub_bestmoves_append: "hub_bestmoves (xs @ ys) = hub_bestmoves xs @ hub_bestmoves ys"
  by (induction xs rule: hub_bestmoves.induct) auto

lemma emitted_append: "trace s' = trace s @ evs \<Longrightarrow> emitted s s' = evs"
  by (simp add: emitted_def)

lemma emitted_self: "emitted s s = []"
  by (simp add: emitted_def)

lemma set_trim: "set (trim s) \<subseteq> set s"
proof -
  have "set (trim s) \<subseteq> set (dropWhile is_space s)"
    unfolding trim_def using set_dropWhileD by fastforce
  also have "\<dots> \<subseteq> set s"
    using set_dropWhileD by fastforce
  finally show ?thesis .
qed

lemma set_slice: "set (slice s a b) \<subseteq> set s"
  unfolding slice_def
  by (auto dest: in_set_takeD in_set_dropD)

lemma toLowerCase_fixed: "\<forall>c\<in>set s. lower_char c = c \<Longrightarrow> toLowerCase s = s"
  unfolding toLowerCase_def by (induction s) auto

lemma lower_key: "toLowerCase (trim (slice (toLowerCase m) a b)) = trim (slice (toLowerCase m) a b)"
proof (rule toLowerCase_fixed, rule ballI)
  fix c assume "c \<in> set (trim (slice (toLowerCase m) a b))"
  then have "c \<in> set (toLowerCase m)"
    using set_trim set_slice by blast
  then show "lower_char c = c"
    by (auto simp: toLowerCase_def lower_char_idem)
qed

lemma ack_eq:
  "send_ack_setoption_to_main_process s name =
     emit s (AckSetoption (toLowerCase name)
        (case sent_options s (toLowerCase name) of Some v \<Rightarrow> v | None \<Rightarrow> []))"
  by (simp add: send_ack_setoption_to_main_process_def Let_def)

lemma record_setoption_fields [simp]:
  "exe (record_setoption s m) = exe s"
  "last_send (record_setoption s m) = last_send s"
  "unresolved_stop_time (record_setoption s m) = unresolved_stop_time s"
  "ever_received_uciok (record_setoption s m) = ever_received_uciok s"
  "ever_received_readyok (record_setoption s m) = ever_received_readyok s"
  "have_quit (record_setoption s m) = have_quit s"
  "suppress_cycle_info (record_setoption s m) = suppress_cycle_info s"
  "setoption_queue (record_setoption s m) = setoption_queue s"
  "warned_send_fail (record_setoption s m) = warned_send_fail s"
  "leelaish (record_setoption s m) = leelaish s"
  "search_running (record_setoption s m) = search_running s"
  "search_desired (record_setoption s m) = search_desired s"
  "search_completed (record_setoption s m) = search_completed s"
  "engine_cycle (record_setoption s m) = engine_cycle s"
  "engine_subcycle (record_setoption s m) = engine_subcycle s"
  by (simp_all add: record_setoption_def ack_eq emit_def Let_def split: option.splits)

lemma write_line_fields [simp]:
  "exe (write_line w s m) = exe s"
  "unresolved_stop_time (write_line w s m) = unresolved_stop_time s"
  "ever_received_uciok (write_line w s m) = ever_received_uciok s"
  "ever_received_readyok (write_line w s m) = ever_received_readyok s"
  "have_quit (write_line w s m) = have_quit s"
  "suppress_cycle_info (write_line w s m) = suppress_cycle_info s"
  "sent_options (write_line w s m) = sent_options s"
  "setoption_queue (write_line w s m) = setoption_queue s"
  "leelaish (write_line w s m) = leelaish s"
  "search_running (write_line w s m) = search_running s"
  "search_desired (write_line w s m) = search_desired s"
  "search_completed (write_line w s m) = search_completed s"
  "engine_cycle (write_line w s m) = engine_cycle s"
  "engine_subcycle (write_line w s m) = engine_subcycle s"
  by (simp_all add: write_line_def write_failed_def Log_def emit_def Let_def)

lemma send_fields [simp]:
  "exe (send w h s m f) = exe s"
  "unresolved_stop_time (send w h s m f) = unresolved_stop_time s"
  "ever_received_uciok (send w h s m f) = ever_received_uciok s"
  "ever_received_readyok (send w h s m f) = ever_received_readyok s"
  "have_quit (send w h s m f) = have_quit s"
  "suppress_cycle_info (send w h s m f) = suppress_cycle_info s"
  "leelaish (send w h s m f) = leelaish s"
  "search_running (send w h s m f) = search_running s"
  "search_desired (send w h s m f) = search_desired s"
  "search_completed (send w h s m f) = search_completed s"
  "engine_cycle (send w h s m f) = engine_cycle s"
  "engine_subcycle (send w h s m f) = engine_subcycle s"
  by (simp_all add: send_def Let_def)

lemma hub_infos_append: "hub_infos (xs @ ys) = hub_infos xs @ hub_infos ys"
  by (induction xs rule: hub_infos.induct) auto

lemma go_lines_append: "go_lines (xs @ ys) = go_lines xs + go_lines ys"
  by (induction xs rule: go_lines.induct) auto

lemma go_lines_chunks:
  "go_lines evs = length (filter (\<lambda>c. startsWith c ''go'') (stdin_chunks evs))"
  by (induction evs rule: go_lines.induct) auto

lemma send_held_back:
  "held_back h s m f \<Longrightarrow> send w h s m f = s\<lparr>setoption_queue := setoption_queue s @ [trim m]\<rparr>"
  by (simp add: held_back_def send_def Let_def)

lemma send_queue_unchanged:
  "\<not> held_back h s m f \<Longrightarrow> setoption_queue (send w h s m f) = setoption_queue s"
  by (auto simp: held_back_def send_def Let_def)

lemma write_line_ok:
  "pipe_never_throws w \<Longrightarrow>
   write_line w s m =
     s\<lparr>trace := trace s @ [StdinWrite m, StdinWrite [CHR 0x0A], LogLine (''--> '' @ m)],
       last_send := Some m\<rparr>"
  by (simp add: pipe_never_throws_def write_line_def Log_def emit_def Let_def)

lemma write_line_events:
  "\<exists>evs. trace (write_line w s m) = trace s @ evs \<and> hub_bestmoves evs = [] \<and> hub_infos evs = []
     \<and> (pipe_never_throws w \<longrightarrow> stdin_chunks evs = wire m)"
  by (auto simp: pipe_never_throws_def write_line_def write_failed_def Log_def emit_def Let_def wire_def)

lemma record_setoption_events:
  "\<exists>evs. trace (record_setoption s m) = trace s @ evs
     \<and> stdin_chunks evs = [] \<and> hub_bestmoves evs = [] \<and> hub_infos evs = []"
  by (simp add: record_setoption_def ack_eq emit_def Let_def split: option.splits)

lemma send_events:
  "\<exists>evs. trace (send w h s m f) = trace s @ evs \<and> hub_bestmoves evs = [] \<and> hub_infos evs = []
     \<and> (held_back h s m f \<longrightarrow> evs = [])
     \<and> (exe s = None \<longrightarrow> stdin_chunks evs = [])
     \<and> (\<not> held_back h s m f \<longrightarrow> exe s \<noteq> None \<longrightarrow> pipe_never_throws w
           \<longrightarrow> stdin_chunks evs = wire (trim m))"
proof (cases "held_back h s m f")
  case True
  then show ?thesis by (simp add: send_held_back)
next
  case False
  define s1 where "s1 = (if startsWith (trim m) ''setoption'' then record_setoption s (trim m) else s)"
  have "\<exists>e1. trace s1 = trace s @ e1 \<and> stdin_chunks e1 = [] \<and> hub_bestmoves e1 = []
      \<and> hub_infos e1 = []"
  proof (cases "startsWith (trim m) ''setoption''")
    case True
    then show ?thesis using record_setoption_events[of s "trim m"] by (simp add: s1_def)
  next
    case False
    then show ?thesis by (simp add: s1_def)
  qed
  then obtain e1 where e1: "trace s1 = trace s @ e1" "stdin_chunks e1 = []" "hub_bestmoves e1 = []"
      "hub_infos e1 = []"
    by blast
  obtain e2 where e2: "trace (write_line w s1 (trim m)) = trace s1 @ e2" "hub_bestmoves e2 = []"
      "hub_infos e2 = []" "pipe_never_throws w \<longrightarrow> stdin_chunks e2 = wire (trim m)"
    using write_line_events by blast
  have ex: "exe s1 = exe s" by (simp add: s1_def)
  have sd: "send w h s m f = (if exe s = None then s1 else write_line w s1 (trim m))"
    using False by (auto simp: held_back_def send_def Let_def s1_def)
  show ?thesis
  proof (cases "exe s = None")
    case True
    then show ?thesis using sd e1 False by auto
  next
    case nz: False
    then have "send w h s m f = write_line w s1 (trim m)"
      using sd by (cases "exe s") auto
    then have "trace (send w h s m f) = trace s @ (e1 @ e2)"
      using e1 e2 by simp
    moreover have "exe s = None \<longrightarrow> stdin_chunks (e1 @ e2) = []"
      using nz by blast
    moreover have "\<not> held_back h s m f \<longrightarrow> exe s \<noteq> None \<longrightarrow> pipe_never_throws w
           \<longrightarrow> stdin_chunks (e1 @ e2) = wire (trim m)"
      using e1 e2 by (simp add: stdin_chunks_append)
    ultimately show ?thesis
      using e1 e2 False
      by (intro exI[of _ "e1 @ e2"]) (simp add: hub_bestmoves_append hub_infos_append)
  qed
qed

lemma send_sent_options_plain:
  "\<not> startsWith (trim m) ''setoption'' \<Longrightarrow> sent_options (send w h s m f) = sent_options s"
  by (simp add: send_def Let_def)

lemma send_plain_queue:
  "\<not> startsWith (trim m) ''setoption'' \<Longrightarrow> setoption_queue (send w h s m f) = setoption_queue s"
  by (simp add: send_def Let_def)

lemma foldl_keeps: "(\<And>s m. g (f s m) = g s) \<Longrightarrow> g (foldl f s q) = g s"
  by (induction q arbitrary: s) auto

lemma foldl_send_fields [simp]:
  "exe (foldl (\<lambda>s' m. send w h s' m True) s q) = exe s"
  "unresolved_stop_time (foldl (\<lambda>s' m. send w h s' m True) s q) = unresolved_stop_time s"
  "ever_received_uciok (foldl (\<lambda>s' m. send w h s' m True) s q) = ever_received_uciok s"
  "ever_received_readyok (foldl (\<lambda>s' m. send w h s' m True) s q) = ever_received_readyok s"
  "have_quit (foldl (\<lambda>s' m. send w h s' m True) s q) = have_quit s"
  "suppress_cycle_info (foldl (\<lambda>s' m. send w h s' m True) s q) = suppress_cycle_info s"
  "leelaish (foldl (\<lambda>s' m. send w h s' m True) s q) = leelaish s"
  "search_running (foldl (\<lambda>s' m. send w h s' m True) s q) = search_running s"
  "search_desired (foldl (\<lambda>s' m. send w h s' m True) s q) = search_desired s"
  "search_completed (foldl (\<lambda>s' m. send w h s' m True) s q) = search_completed s"
  "engine_cycle (foldl (\<lambda>s' m. send w h s' m True) s q) = engine_cycle s"
  "engine_subcycle (foldl (\<lambda>s' m. send w h s' m True) s q) = engine_subcycle s"
  by (rule foldl_keeps, simp)+

lemma extends_iff: "extends s s' \<longleftrightarrow> trace s' = trace s @ emitted s s'"
  unfolding extends_def emitted_def
  by (metis append_take_drop_id append_eq_conv_conj)

lemma extendsI: "trace s' = trace s @ evs \<Longrightarrow> extends s s'"
  by (simp add: extends_def)

lemma extends_refl [simp]: "extends s s"
  by (simp add: extends_def)

lemma extends_trans:
  assumes "extends s s1" and "extends s1 s2"
  shows "extends s s2"
proof -
  have "trace s2 = trace s @ (emitted s s1 @ emitted s1 s2)"
    using assms by (metis extends_iff append.assoc)
  then show ?thesis by (rule extendsI)
qed

lemma emitted_trans:
  assumes "extends s s1" and "extends s1 s2"
  shows "emitted s s2 = emitted s s1 @ emitted s1 s2"
proof -
  have "trace s2 = trace s @ (emitted s s1 @ emitted s1 s2)"
    using assms by (metis extends_iff append.assoc)
  then show ?thesis by (rule emitted_append)
qed

lemma send_extends [simp]: "extends s (send w h s m f)"
  using send_events[of w h s m f] by (auto intro: extendsI)

lemma send_emitted_hub [simp]:
  "hub_bestmoves (emitted s (send w h s m f)) = []"
  "hub_infos (emitted s (send w h s m f)) = []"
  using send_events[of w h s m f] by (auto simp: emitted_def)

lemma send_emitted_held: "held_back h s m f \<Longrightarrow> emitted s (send w h s m f) = []"
  by (simp add: send_held_back emitted_def)

lemma send_emitted_noexe: "exe s = None \<Longrightarrow> stdin_chunks (emitted s (send w h s m f)) = []"
  using send_events[of w h s m f] by (auto simp: emitted_def)

lemma send_emitted_ok:
  assumes "\<not> held_back h s m f" and "exe s \<noteq> None" and "pipe_never_throws w"
  shows "stdin_chunks (emitted s (send w h s m f)) = wire (trim m)"
proof -
  obtain evs where "trace (send w h s m f) = trace s @ evs" "stdin_chunks evs = wire (trim m)"
    using send_events[of w h s m f] assms by blast
  then show ?thesis by (simp add: emitted_def)
qed

lemma foldl_send_extends [simp]: "extends s (foldl (\<lambda>s' m. send w h s' m True) s q)"
proof (induction q arbitrary: s)
  case Nil
  show ?case by simp
next
  case (Cons m q)
  show ?case
    using extends_trans[OF send_extends Cons.IH] by simp
qed

lemma foldl_send_quiet:
  assumes app: "\<And>xs ys. P (xs @ ys) = P xs @ P ys"
      and one: "\<And>s m. P (emitted s (send w h s m True)) = []"
  shows "P (emitted s (foldl (\<lambda>s' m. send w h s' m True) s q)) = []"
proof (induction q arbitrary: s)
  case Nil
  have "P ([] @ []) = P [] @ P []" by (rule app)
  then show ?case by (simp add: emitted_self)
next
  case (Cons m q)
  have tr: "emitted s (foldl (\<lambda>s' m. send w h s' m True) (send w h s m True) q)
      = emitted s (send w h s m True)
        @ emitted (send w h s m True) (foldl (\<lambda>s' m. send w h s' m True) (send w h s m True) q)"
    by (rule emitted_trans[OF send_extends foldl_send_extends])
  show ?case
    by (simp add: tr app one Cons.IH)
qed

lemma foldl_send_hub [simp]:
  "hub_bestmoves (emitted s (foldl (\<lambda>s' m. send w h s' m True) s q)) = []"
  "hub_infos (emitted s (foldl (\<lambda>s' m. send w h s' m True) s q)) = []"
  by (rule foldl_send_quiet; simp add: hub_bestmoves_append hub_infos_append)+

lemma foldl_send_noexe:
  "exe s = None \<Longrightarrow> stdin_chunks (emitted s (foldl (\<lambda>s' m. send w h s' m True) s q)) = []"
proof (induction q arbitrary: s)
  case Nil
  show ?case by (simp add: emitted_self)
next
  case (Cons m q)
  have tr: "emitted s (foldl (\<lambda>s' m. send w h s' m True) (send w h s m True) q)
      = emitted s (send w h s m True)
        @ emitted (send w h s m True) (foldl (\<lambda>s' m. send w h s' m True) (send w h s m True) q)"
    by (rule emitted_trans[OF send_extends foldl_send_extends])
  have "exe (send w h s m True) = None" using Cons.prems by simp
  then show ?case
    using Cons.prems Cons.IH
    by (simp add: tr stdin_chunks_append send_emitted_noexe)
qed

lemma foldl_send_ok:
  assumes "exe s \<noteq> None" and "pipe_never_throws w"
  shows "stdin_chunks (emitted s (foldl (\<lambda>s' m. send w h s' m True) s q))
           = concat (map (\<lambda>m. wire (trim m)) q)"
  using assms(1)
proof (induction q arbitrary: s)
  case Nil
  show ?case by (simp add: emitted_self)
next
  case (Cons m q)
  have tr: "emitted s (foldl (\<lambda>s' m. send w h s' m True) (send w h s m True) q)
      = emitted s (send w h s m True)
        @ emitted (send w h s m True) (foldl (\<lambda>s' m. send w h s' m True) (send w h s m True) q)"
    by (rule emitted_trans[OF send_extends foldl_send_extends])
  have nh: "\<not> held_back h s m True" by (simp add: held_back_def)
  have ex: "exe (send w h s m True) \<noteq> None" using Cons.prems by simp
  show ?case
    by (simp add: tr stdin_chunks_append send_emitted_ok[OF nh Cons.prems assms(2)] Cons.IH[OF ex])
qed

lemma drain_queue [simp]: "setoption_queue (send_queued_setoptions w h s) = []"
  by (simp add: send_queued_setoptions_def)

lemma drain_fields [simp]:
  "exe (send_queued_setoptions w h s) = exe s"
  "unresolved_stop_time (send_queued_setoptions w h s) = unresolved_stop_time s"
  "ever_received_uciok (send_queued_setoptions w h s) = ever_received_uciok s"
  "ever_received_readyok (send_queued_setoptions w h s) = ever_received_readyok s"
  "have_quit (send_queued_setoptions w h s) = have_quit s"
  "suppress_cycle_info (send_queued_setoptions w h s) = suppress_cycle_info s"
  "leelaish (send_queued_setoptions w h s) = leelaish s"
  "search_running (send_queued_setoptions w h s) = search_running s"
  "search_desired (send_queued_setoptions w h s) = search_desired s"
  "search_completed (send_queued_setoptions w h s) = search_completed s"
  "engine_cycle (send_queued_setoptions w h s) = engine_cycle s"
  "engine_subcycle (send_queued_setoptions w h s) = engine_subcycle s"
  by (simp_all add: send_queued_setoptions_def)

lemma drain_extends [simp]: "extends s (send_queued_setoptions w h s)"
  using foldl_send_extends[of s w h "setoption_queue s"]
  by (simp add: send_queued_setoptions_def extends_def)

lemma drain_emitted:
  "emitted s (send_queued_setoptions w h s)
     = emitted s (foldl (\<lambda>s' m. send w h s' m True) s (setoption_queue s))"
  by (simp add: send_queued_setoptions_def emitted_def)

lemma drain_hub [simp]:
  "hub_bestmoves (emitted s (send_queued_setoptions w h s)) = []"
  "hub_infos (emitted s (send_queued_setoptions w h s)) = []"
  by (simp_all add: drain_emitted)

lemma drain_noexe:
  "exe s = None \<Longrightarrow> stdin_chunks (emitted s (send_queued_setoptions w h s)) = []"
  by (simp add: drain_emitted foldl_send_noexe)

lemma drain_ok:
  "exe s \<noteq> None \<Longrightarrow> pipe_never_throws w \<Longrightarrow>
   stdin_chunks (emitted s (send_queued_setoptions w h s))
     = concat (map (\<lambda>m. wire (trim m)) (setoption_queue s))"
  by (simp add: drain_emitted foldl_send_ok)

lemma emit_extends [simp]: "extends s (emit s e)"
  by (simp add: emit_def extends_def)

lemma emitted_emit [simp]: "emitted s (emit s e) = [e]"
  by (simp add: emit_def emitted_def)

lemma Log_extends [simp]: "extends s (Log s t)"
  by (simp add: Log_def)

lemma emitted_Log [simp]: "emitted s (Log s t) = [LogLine t]"
  by (simp add: Log_def)

section \<open>The info filter\<close>

text \<open>
  Claim C4. An inbound \<^verbatim>\<open>info\<close> line is passed to the hub's info handler, with the node
  of the running search, exactly when the running search has a node, that node is not
  destroyed, the engine is leelaish or the desired search has the very same node as the
  running one, and \<open>suppress_cycle_info\<close> is not the current engine cycle. In that case
  the call of the handler is the only thing done. In every other case the handler is not
  called: the state stays as it is, or gets one log line.
\<close>

theorem info_line_forwarded_iff:
  "(if (\<exists>n. params_node h (search_running s) = Some n \<and> \<not> destroyed w n)
        \<and> (leelaish s \<or> params_node h (search_desired s) = params_node h (search_running s))
        \<and> suppress_cycle_info s \<noteq> Some (engine_cycle s)
    then handle_info_line cfg w h s line
           = emit s (InfoReceive (the (params_node h (search_running s))) line)
    else hub_infos (emitted s (handle_info_line cfg w h s line)) = []
         \<and> (handle_info_line cfg w h s line = s
              \<or> (\<exists>txt. handle_info_line cfg w h s line = Log s txt)))"
  by (auto simp: handle_info_line_def emitted_self split: option.splits)

theorem info_line_forwarded_iff_witness:
  "handle_info_line demo_config demo_world demo_heap demo_running ''info depth 1''
     = emit demo_running (InfoReceive 5 ''info depth 1'')
   \<and> hub_infos (emitted demo_changing
        (handle_info_line demo_config demo_world demo_heap demo_changing ''info depth 1'')) = []"
proof -
  have a: "params_node demo_heap (search_running demo_running) = Some 5"
    by (simp add: params_node_def demo_heap_def demo_running_def demo_idle_def NewEngine_def)
  have b: "params_node demo_heap (search_desired demo_running) = Some 5"
    by (simp add: params_node_def demo_heap_def demo_running_def demo_idle_def NewEngine_def)
  have c: "\<not> destroyed demo_world 5" "suppress_cycle_info demo_running = None"
    by (simp_all add: demo_world_def demo_running_def demo_idle_def NewEngine_def)
  have d: "params_node demo_heap (search_running demo_changing) = Some 5"
     "params_node demo_heap (search_desired demo_changing) = Some 6"
     "\<not> leelaish demo_changing"
    by (simp_all add: params_node_def demo_heap_def demo_changing_def demo_running_def demo_idle_def NewEngine_def)
  show ?thesis
    using info_line_forwarded_iff[of demo_heap demo_running demo_world demo_config "''info depth 1''"]
          info_line_forwarded_iff[of demo_heap demo_changing demo_world demo_config "''info depth 1''"]
    by (simp add: a b c d)
qed


subsection \<open>send\_desired\<close>

lemma is_space_p [simp]: "\<not> is_space CHR ''p''" "\<not> is_space CHR ''g''" "\<not> is_space CHR ''o''"
  "\<not> is_space CHR ''s''"
  by (simp_all add: is_space_def)

lemma position_command_head: "\<exists>r. position_command w s n = CHR ''p'' # r"
  by (simp add: position_command_def Let_def)

lemma foldl_glue: "foldl (\<lambda>acc move. acc @ g move) a ms = a @ concat (map g ms)"
  by (induction ms arbitrary: a) auto

lemma go_command_head: "\<exists>r. go_command cfg h s = CHR ''g'' # CHR ''o'' # r"
  by (simp add: go_command_def Let_def foldl_glue split: option.splits)

lemma go_command_desired:
  assumes "search_desired s' = search_desired s"
  shows "go_command cfg h s' = go_command cfg h s"
  unfolding go_command_def assms by (rule refl)

lemma emit_fields [simp]:
  "exe (emit s e) = exe s"
  "last_send (emit s e) = last_send s"
  "unresolved_stop_time (emit s e) = unresolved_stop_time s"
  "ever_received_uciok (emit s e) = ever_received_uciok s"
  "ever_received_readyok (emit s e) = ever_received_readyok s"
  "have_quit (emit s e) = have_quit s"
  "suppress_cycle_info (emit s e) = suppress_cycle_info s"
  "sent_options (emit s e) = sent_options s"
  "setoption_queue (emit s e) = setoption_queue s"
  "warned_send_fail (emit s e) = warned_send_fail s"
  "leelaish (emit s e) = leelaish s"
  "search_running (emit s e) = search_running s"
  "search_desired (emit s e) = search_desired s"
  "search_completed (emit s e) = search_completed s"
  "engine_cycle (emit s e) = engine_cycle s"
  "engine_subcycle (emit s e) = engine_subcycle s"
  by (simp_all add: emit_def)

lemma Log_fields [simp]:
  "exe (Log s t) = exe s"
  "last_send (Log s t) = last_send s"
  "unresolved_stop_time (Log s t) = unresolved_stop_time s"
  "ever_received_uciok (Log s t) = ever_received_uciok s"
  "ever_received_readyok (Log s t) = ever_received_readyok s"
  "have_quit (Log s t) = have_quit s"
  "suppress_cycle_info (Log s t) = suppress_cycle_info s"
  "sent_options (Log s t) = sent_options s"
  "setoption_queue (Log s t) = setoption_queue s"
  "warned_send_fail (Log s t) = warned_send_fail s"
  "leelaish (Log s t) = leelaish s"
  "search_running (Log s t) = search_running s"
  "search_desired (Log s t) = search_desired s"
  "search_completed (Log s t) = search_completed s"
  "engine_cycle (Log s t) = engine_cycle s"
  "engine_subcycle (Log s t) = engine_subcycle s"
  by (simp_all add: Log_def)

lemma go_command_after [simp]:
  "go_command cfg h (send w h' s m f) = go_command cfg h s"
  "go_command cfg h (Log s t) = go_command cfg h s"
  by (rule go_command_desired, simp)+

lemma position_not_held [simp]: "\<not> held_back h s (position_command w s' n) f"
proof -
  obtain r where "position_command w s' n = CHR ''p'' # r"
    using position_command_head by blast
  then show ?thesis
    by (simp add: held_back_def trim_Cons startsWith_Cons)
qed

lemma go_not_held [simp]: "\<not> held_back h s (go_command cfg h' s') f"
proof -
  obtain r where "go_command cfg h' s' = CHR ''g'' # CHR ''o'' # r"
    using go_command_head by blast
  then show ?thesis
    by (simp add: held_back_def trim_Cons startsWith_Cons)
qed

lemma send_desired_throws:
  "params_node h (search_running s) \<noteq> None \<Longrightarrow> send_desired cfg w h s = Inl SendDesiredWhileRunning"
  by (simp add: send_desired_def)

lemma send_desired_abandons:
  "params_node h (search_running s) = None \<Longrightarrow> \<not> launches w h s \<Longrightarrow>
   send_desired cfg w h s = Inr (s\<lparr>search_running := NoSearch, search_desired := NoSearch\<rparr>)"
  by (auto simp: send_desired_def launches_def split: option.splits)

text \<open>The state after the \<^verbatim>\<open>position\<close> line and the optional picture of the board.\<close>

lemma send_desired_launches:
  assumes "params_node h (search_running s) = None"
      and "params_node h (search_desired s) = Some n"
      and "\<not> destroyed w n" and "terminal_reason w n = []"
  shows "send_desired cfg w h s =
           Inr ((send w h
                   (if log_positions cfg
                    then Log (send w h s (position_command w s n) False) (graphic w n)
                    else send w h s (position_command w s n) False)
                   (go_command cfg h s) False)
                 \<lparr>search_running := search_desired s, suppress_cycle_info := None,
                  engine_cycle := engine_cycle s + 1,
                  engine_subcycle := engine_subcycle s + 1\<rparr>)"
  using assms by (simp add: send_desired_def Let_def)

lemma launched_eq:
  assumes "params_node h (search_running s) = None"
      and "params_node h (search_desired s) = Some n"
      and "\<not> destroyed w n" and "terminal_reason w n = []"
  shows "send_desired cfg w h s = Inr (launched cfg w h s n)"
  unfolding launched_def by (rule send_desired_launches[OF assms])

lemma launched_fields [simp]:
  "search_running (launched cfg w h s n) = search_desired s"
  "search_desired (launched cfg w h s n) = search_desired s"
  "search_completed (launched cfg w h s n) = search_completed s"
  "suppress_cycle_info (launched cfg w h s n) = None"
  "engine_cycle (launched cfg w h s n) = engine_cycle s + 1"
  "engine_subcycle (launched cfg w h s n) = engine_subcycle s + 1"
  "exe (launched cfg w h s n) = exe s"
  "ever_received_uciok (launched cfg w h s n) = ever_received_uciok s"
  "ever_received_readyok (launched cfg w h s n) = ever_received_readyok s"
  "have_quit (launched cfg w h s n) = have_quit s"
  "leelaish (launched cfg w h s n) = leelaish s"
  "unresolved_stop_time (launched cfg w h s n) = unresolved_stop_time s"
  by (simp_all add: launched_def)

lemma launched_queue [simp]: "setoption_queue (launched cfg w h s n) = setoption_queue s"
  by (simp add: launched_def send_queue_unchanged)

text \<open>The trace of a launch: the events of the first send, the log line, the events of the second send.\<close>

lemma launched_trace:
  fixes cfg w h s n
  defines "s1 \<equiv> send w h s (position_command w s n) False"
  defines "s2 \<equiv> (if log_positions cfg then Log s1 (graphic w n) else s1)"
  shows "extends s (launched cfg w h s n)"
    and "emitted s (launched cfg w h s n)
           = emitted s s1 @ emitted s1 s2
             @ emitted s2 (send w h s2 (go_command cfg h s) False)"
proof -
  define s3 where "s3 = send w h s2 (go_command cfg h s) False"
  have x1: "extends s s1" by (simp add: s1_def)
  have x2: "extends s1 s2" by (simp add: s2_def)
  have x3: "extends s2 s3" by (simp add: s3_def)
  have tr: "trace (launched cfg w h s n) = trace s3"
    by (simp add: launched_def s3_def s2_def s1_def)
  have "extends s s3"
    by (rule extends_trans[OF x1 extends_trans[OF x2 x3]])
  then show "extends s (launched cfg w h s n)"
    by (simp add: extends_def tr)
  have "emitted s s3 = emitted s s1 @ emitted s1 s2 @ emitted s2 s3"
    using emitted_trans[OF x1 extends_trans[OF x2 x3]] emitted_trans[OF x2 x3] by simp
  then show "emitted s (launched cfg w h s n)
           = emitted s s1 @ emitted s1 s2
             @ emitted s2 (send w h s2 (go_command cfg h s) False)"
    by (simp add: emitted_def tr s3_def)
qed

lemma launched_log_quiet:
  "stdin_chunks (emitted s1 (if c then Log s1 t else s1)) = []"
  "hub_bestmoves (emitted s1 (if c then Log s1 t else s1)) = []"
  "hub_infos (emitted s1 (if c then Log s1 t else s1)) = []"
  by (simp_all add: emitted_self)

lemma launched_hub [simp]:
  "hub_bestmoves (emitted s (launched cfg w h s n)) = []"
  "hub_infos (emitted s (launched cfg w h s n)) = []"
  by (simp_all add: launched_trace(2) hub_bestmoves_append hub_infos_append launched_log_quiet)

lemma launched_noexe:
  "exe s = None \<Longrightarrow> stdin_chunks (emitted s (launched cfg w h s n)) = []"
  by (simp add: launched_trace(2) stdin_chunks_append launched_log_quiet send_emitted_noexe)

lemma launched_ok:
  assumes a: "exe s \<noteq> None" and b: "pipe_never_throws w"
  shows "stdin_chunks (emitted s (launched cfg w h s n))
           = wire (trim (position_command w s n)) @ wire (trim (go_command cfg h s))"
proof -
  define s1 where "s1 = send w h s (position_command w s n) False"
  define s2 where "s2 = (if log_positions cfg then Log s1 (graphic w n) else s1)"
  have a2: "exe s2 \<noteq> None" using a by (simp add: s2_def s1_def)
  have c1: "stdin_chunks (emitted s s1) = wire (trim (position_command w s n))"
    unfolding s1_def by (rule send_emitted_ok[OF position_not_held a b])
  have c3: "stdin_chunks (emitted s2 (send w h s2 (go_command cfg h s) False))
                   = wire (trim (go_command cfg h s))"
    by (rule send_emitted_ok[OF go_not_held a2 b])
  have c2: "stdin_chunks (emitted s1 s2) = []"
    unfolding s2_def by (rule launched_log_quiet)
  have em: "emitted s (launched cfg w h s n)
           = emitted s s1 @ emitted s1 s2
             @ emitted s2 (send w h s2 (go_command cfg h s) False)"
    unfolding s1_def s2_def by (rule launched_trace(2))
  show ?thesis
    unfolding em by (simp add: stdin_chunks_append c1 c2 c3)
qed

lemma send_desired_launch_trace:
  assumes "params_node h (search_running s) = None"
      and "params_node h (search_desired s) = Some n"
      and "\<not> destroyed w n" and "terminal_reason w n = []"
  shows "\<exists>s'. send_desired cfg w h s = Inr s' \<and> extends s s'
           \<and> search_running s' = search_desired s \<and> search_desired s' = search_desired s
           \<and> search_completed s' = search_completed s
           \<and> suppress_cycle_info s' = None
           \<and> engine_cycle s' = engine_cycle s + 1 \<and> engine_subcycle s' = engine_subcycle s + 1
           \<and> setoption_queue s' = setoption_queue s \<and> exe s' = exe s
           \<and> hub_bestmoves (emitted s s') = [] \<and> hub_infos (emitted s s') = []
           \<and> (exe s = None \<longrightarrow> stdin_chunks (emitted s s') = [])
           \<and> (exe s \<noteq> None \<longrightarrow> pipe_never_throws w \<longrightarrow>
                 stdin_chunks (emitted s s')
                   = wire (trim (position_command w s n)) @ wire (trim (go_command cfg h s)))"
proof -
  have ne: "exe s = None \<longrightarrow> stdin_chunks (emitted s (launched cfg w h s n)) = []"
    using launched_noexe by blast
  have ok: "exe s \<noteq> None \<longrightarrow> pipe_never_throws w \<longrightarrow>
                 stdin_chunks (emitted s (launched cfg w h s n))
                   = wire (trim (position_command w s n)) @ wire (trim (go_command cfg h s))"
    using launched_ok by blast
  show ?thesis
    by (intro exI[of _ "launched cfg w h s n"] conjI launched_eq[OF assms] launched_trace(1)
          launched_fields launched_queue launched_hub ne ok)
qed

lemma send_desired_quiet:
  assumes "params_node h (search_running s) = None"
  shows "\<exists>s'. send_desired cfg w h s = Inr s' \<and> extends s s'
           \<and> hub_bestmoves (emitted s s') = [] \<and> hub_infos (emitted s s') = []"
proof (cases "launches w h s")
  case True
  then obtain n where n: "params_node h (search_desired s) = Some n" "\<not> destroyed w n"
      "terminal_reason w n = []"
    by (auto simp: launches_def split: option.splits)
  show ?thesis
    using send_desired_launch_trace[OF assms n, of cfg] by blast
next
  case False
  have "extends s (s\<lparr>search_running := NoSearch, search_desired := NoSearch\<rparr>)"
       "emitted s (s\<lparr>search_running := NoSearch, search_desired := NoSearch\<rparr>) = []"
    by (simp_all add: extends_def emitted_def)
  then show ?thesis
    using send_desired_abandons[OF assms False, of cfg] by simp
qed

subsection \<open>handle\_bestmove\_line\<close>

text \<open>The state in which \<^verbatim>\<open>handle_bestmove_line\<close> takes its decision.\<close>

lemma handle_bestmove_line_unfold:
  "handle_bestmove_line cfg w h s line =
     (if search_desired s = search_running s \<or> params_node h (search_desired s) = None
      then
        (if search_desired s = search_running s \<and> params_node h (search_running s) \<noteq> None
         then Inr (emit (send_queued_setoptions w h
                (Log (s\<lparr>search_completed := search_running s, search_running := NoSearch,
                         unresolved_stop_time := None, search_desired := NoSearch\<rparr>)
                     (''< '' @ line)))
                (ReceiveBestmove line (params_node h (search_running s))))
         else Inr (send_queued_setoptions w h
                (Log (s\<lparr>search_completed := search_running s, search_running := NoSearch,
                         unresolved_stop_time := None, search_desired := NoSearch\<rparr>)
                     (''(ignore halted) < '' @ line))))
      else send_desired cfg w h
             (send_queued_setoptions w h
                (Log (s\<lparr>search_completed := search_running s, search_running := NoSearch,
                         unresolved_stop_time := None\<rparr>)
                     (''(ignore old) < '' @ line))))"
  by (simp add: handle_bestmove_line_def Let_def)

lemma Log_update_extends:
  "trace s0 = trace s \<Longrightarrow> extends s (Log s0 t)"
  "trace s0 = trace s \<Longrightarrow> emitted s (Log s0 t) = [LogLine t]"
  by (simp_all add: extends_def emitted_def Log_def emit_def)

section \<open>Which bestmove reaches the hub\<close>

text \<open>
  Claim C1. When a \<^verbatim>\<open>bestmove\<close> line comes in, \<^verbatim>\<open>handle_bestmove_line\<close> returns
  (it never throws, the store being as the script built it) and calls
  \<^verbatim>\<open>hub.receive_bestmove\<close> exactly once, with the line and the node of the search that
  has just completed, if the desired search is the very object that was running and
  that object has a node; in every other case it does not call it at all. The reader of
  the engine's stdout hands every line that begins with \<^verbatim>\<open>bestmove\<close> to it.
\<close>

theorem bestmove_forwarded_iff:
  assumes "params_node h NoSearch = None"
  shows "\<exists>s'. handle_bestmove_line cfg w h s line = Inr s' \<and> extends s s'
           \<and> hub_bestmoves (emitted s s') =
               (if search_desired s = search_running s \<and> params_node h (search_running s) \<noteq> None
                then [(line, params_node h (search_running s))] else [])
           \<and> (\<not> have_quit s \<longrightarrow> startsWith line ''bestmove'' \<longrightarrow>
                  scanner_line cfg w h s line = Inr s')"
proof -
  have sc: "\<not> have_quit s \<longrightarrow> startsWith line ''bestmove'' \<longrightarrow>
              scanner_line cfg w h s line = handle_bestmove_line cfg w h s line"
    by (simp add: scanner_line_def)
  define t where "t = (if search_desired s = search_running s \<or> params_node h (search_desired s) = None
     then (if search_desired s = search_running s \<and> params_node h (search_running s) \<noteq> None
           then ''< '' @ line else ''(ignore halted) < '' @ line)
     else ''(ignore old) < '' @ line)"
  define s0 where "s0 = (if search_desired s = search_running s \<or> params_node h (search_desired s) = None
     then s\<lparr>search_completed := search_running s, search_running := NoSearch,
                         unresolved_stop_time := None, search_desired := NoSearch\<rparr>
     else s\<lparr>search_completed := search_running s, search_running := NoSearch,
                         unresolved_stop_time := None\<rparr>)"
  define s5 where "s5 = Log s0 t"
  define s6 where "s6 = send_queued_setoptions w h s5"
  have tr0: "trace s0 = trace s" by (simp add: s0_def)
  have x5: "extends s s5" "emitted s s5 = [LogLine t]"
    unfolding s5_def by (rule Log_update_extends[OF tr0])+
  have x6: "extends s5 s6" "hub_bestmoves (emitted s5 s6) = []"
    by (simp_all add: s6_def)
  have x56: "extends s s6" "hub_bestmoves (emitted s s6) = []"
    using extends_trans[OF x5(1) x6(1)] emitted_trans[OF x5(1) x6(1)] x5(2) x6(2)
    by (simp_all add: hub_bestmoves_append)
  have r6: "search_running s6 = NoSearch"
    by (simp add: s6_def s5_def s0_def)
  consider (report) "search_desired s = search_running s" "params_node h (search_running s) \<noteq> None"
    | (stale) "search_desired s = search_running s" "params_node h (search_running s) = None"
    | (halted) "search_desired s \<noteq> search_running s" "params_node h (search_desired s) = None"
    | (old) "search_desired s \<noteq> search_running s" "params_node h (search_desired s) \<noteq> None"
    by argo
  then show ?thesis
  proof cases
    case report
    define s' where "s' = emit s6 (ReceiveBestmove line (params_node h (search_running s)))"
    have res: "handle_bestmove_line cfg w h s line = Inr s'"
      using report
      by (simp add: handle_bestmove_line_unfold s'_def s6_def s5_def s0_def t_def del: not_None_eq)
    have x7: "extends s6 s'" "emitted s6 s' = [ReceiveBestmove line (params_node h (search_running s))]"
      by (simp_all add: s'_def)
    have "extends s s'"
      by (rule extends_trans[OF x56(1) x7(1)])
    moreover have "hub_bestmoves (emitted s s') = [(line, params_node h (search_running s))]"
      using emitted_trans[OF x56(1) x7(1)] x56(2) x7(2) by (simp add: hub_bestmoves_append)
    ultimately show ?thesis
      using res report sc by (simp del: not_None_eq)
  next
    case stale
    have res: "handle_bestmove_line cfg w h s line = Inr s6"
      using stale by (simp add: handle_bestmove_line_unfold s6_def s5_def s0_def t_def)
    show ?thesis
      using res x56 stale sc by simp
  next
    case halted
    have res: "handle_bestmove_line cfg w h s line = Inr s6"
      using halted by (simp add: handle_bestmove_line_unfold s6_def s5_def s0_def t_def)
    show ?thesis
      using res x56 halted sc by simp
  next
    case old
    have res: "handle_bestmove_line cfg w h s line = send_desired cfg w h s6"
      using old by (simp add: handle_bestmove_line_unfold s6_def s5_def s0_def t_def del: not_None_eq)
    have "params_node h (search_running s6) = None"
      using r6 assms by simp
    then obtain s' where s': "send_desired cfg w h s6 = Inr s'" "extends s6 s'"
        "hub_bestmoves (emitted s6 s') = []"
      using send_desired_quiet by blast
    have "extends s s'"
      by (rule extends_trans[OF x56(1) s'(2)])
    moreover have "hub_bestmoves (emitted s s') = []"
      using emitted_trans[OF x56(1) s'(2)] x56(2) s'(3) by (simp add: hub_bestmoves_append)
    ultimately show ?thesis
      using res s'(1) old sc by (simp del: not_None_eq)
  qed
qed


theorem bestmove_forwarded_iff_witness:
  "params_node demo_heap NoSearch = None
   \<and> (\<exists>s'. handle_bestmove_line demo_config demo_world demo_heap demo_running ''bestmove e2e4'' = Inr s'
          \<and> hub_bestmoves (emitted demo_running s') = [(''bestmove e2e4'', Some 5)])
   \<and> (\<exists>s'. handle_bestmove_line demo_config demo_world demo_heap demo_changing ''bestmove e2e4'' = Inr s'
          \<and> hub_bestmoves (emitted demo_changing s') = [])"
proof -
  have h0: "params_node demo_heap NoSearch = None"
    by (simp add: params_node_def demo_heap_def NoSearch_def)
  have a: "search_desired demo_running = search_running demo_running"
     "params_node demo_heap (search_running demo_running) = Some 5"
    by (simp_all add: params_node_def demo_heap_def demo_running_def demo_idle_def NewEngine_def)
  have b: "search_desired demo_changing \<noteq> search_running demo_changing"
    by (simp add: demo_changing_def demo_running_def demo_idle_def NewEngine_def)
  show ?thesis
    using bestmove_forwarded_iff[OF h0, of demo_config demo_world demo_running "''bestmove e2e4''"]
          bestmove_forwarded_iff[OF h0, of demo_config demo_world demo_changing "''bestmove e2e4''"]
    by (simp add: h0 a b) blast
qed

lemma is_space_lower_char [simp]: "is_space (lower_char c) = is_space c"
  by (auto simp: lower_char_def is_space_def split: option.splits if_splits)

lemma toLowerCase_trim: "toLowerCase (trim s) = trim (toLowerCase s)"
  by (simp add: toLowerCase_def trim_def dropWhile_map rev_map comp_def)

lemma toLowerCase_slice: "toLowerCase (slice s a b) = slice (toLowerCase s) a b"
  by (simp add: toLowerCase_def slice_def take_map drop_map)

lemma record_setoption_parsed:
  assumes "indexOf (toLowerCase m) ''name'' = Some i1"
      and "indexOf (toLowerCase m) ''value'' = Some i2"
      and "i1 < i2"
      and "trim (slice (toLowerCase m) (i1 + 5) (i2 - 1)) \<noteq> []"
  shows "record_setoption s m =
           emit (s\<lparr>sent_options := (sent_options s)
                     (trim (slice (toLowerCase m) (i1 + 5) (i2 - 1))
                        \<mapsto> trim (slice_from m (i2 + 6)))\<rparr>)
                (AckSetoption (trim (slice (toLowerCase m) (i1 + 5) (i2 - 1)))
                   (trim (slice_from m (i2 + 6))))"
  using assms by (simp add: record_setoption_def Let_def ack_eq lower_key)

lemma send_not_held:
  "\<not> held_back h s m f \<Longrightarrow>
   send w h s m f =
     (if exe s = None
      then (if startsWith (trim m) ''setoption'' then record_setoption s (trim m) else s)
      else write_line w (if startsWith (trim m) ''setoption'' then record_setoption s (trim m) else s)
             (trim m))"
  by (auto simp: held_back_def send_def Let_def)

section \<open>The discipline of setoption\<close>

text \<open>
  Claim C5. Let the trimmed line begin with \<^verbatim>\<open>setoption\<close>. If \<^verbatim>\<open>send\<close> writes
  anything to the engine's stdin, then the running search has no node or the force flag
  is set. If a search is running and the flag is not set, the line is appended to the
  queue and nothing else happens: nothing is written, nothing recorded.
\<close>

theorem setoption_held_back_or_sent:
  assumes "startsWith (trim msg) ''setoption''"
  shows "(stdin_chunks (emitted s (send w h s msg force)) \<noteq> []
            \<longrightarrow> params_node h (search_running s) = None \<or> force)
       \<and> (params_node h (search_running s) \<noteq> None \<and> \<not> force
            \<longrightarrow> send w h s msg force = s\<lparr>setoption_queue := setoption_queue s @ [trim msg]\<rparr>
                \<and> trace (send w h s msg force) = trace s
                \<and> sent_options (send w h s msg force) = sent_options s)"
proof (cases "held_back h s msg force")
  case True
  have em: "emitted s (send w h s msg force) = []"
    by (rule send_emitted_held[OF True])
  have eq: "send w h s msg force = s\<lparr>setoption_queue := setoption_queue s @ [trim msg]\<rparr>"
    by (rule send_held_back[OF True])
  have "trace (send w h s msg force) = trace s" "sent_options (send w h s msg force) = sent_options s"
    by (simp_all add: eq)
  moreover have "\<not> force"
    using True by (simp add: held_back_def)
  ultimately show ?thesis
    using em eq by simp
next
  case False
  then show ?thesis
    using assms by (auto simp: held_back_def)
qed


theorem setoption_held_back_or_sent_witness:
  "startsWith (trim ''setoption name Threads value 4'') ''setoption''
   \<and> params_node demo_heap (search_running demo_running) = Some 5
   \<and> send demo_world demo_heap demo_running ''setoption name Threads value 4'' False
       = demo_running\<lparr>setoption_queue := [''setoption name Threads value 4'']\<rparr>"
proof -
  have t: "trim ''setoption name Threads value 4'' = ''setoption name Threads value 4''"
    by (simp add: trim_def is_space_def)
  have a: "startsWith (trim ''setoption name Threads value 4'') ''setoption''"
    unfolding t by (simp add: startsWith_def)
  have b: "params_node demo_heap (search_running demo_running) = Some 5"
    by (simp add: params_node_def demo_heap_def demo_running_def demo_idle_def NewEngine_def)
  have q: "setoption_queue demo_running = []"
    by (simp add: demo_running_def demo_idle_def NewEngine_def)
  have a': "startsWith ''setoption name Threads value 4'' ''setoption''"
    by (simp add: startsWith_def)
  show ?thesis
    using setoption_held_back_or_sent[OF a, of demo_running demo_world demo_heap False]
    by (simp add: a' b t q)
qed

text \<open>
  Claim C8. When \<^verbatim>\<open>send\<close> handles a \<^verbatim>\<open>setoption\<close> line that is not held back, in
  which \<^verbatim>\<open>name\<close> occurs before \<^verbatim>\<open>value\<close> and the name read out between them is not
  empty, it stores the value under the lower-case name and its first effect is the
  \<^verbatim>\<open>ack_setoption\<close> with that key and that value; with no subprocess this is all it
  does. The acknowledgement sent for any name carries the lower-case name and the string
  stored for it, the empty string when nothing is stored.
\<close>

theorem setoption_recorded_and_acknowledged:
  assumes "startsWith (trim msg) ''setoption''"
      and "params_node h (search_running s) = None \<or> force"
      and "indexOf (toLowerCase (trim msg)) ''name'' = Some i1"
      and "indexOf (toLowerCase (trim msg)) ''value'' = Some i2"
      and "i1 < i2"
      and "key = trim (slice (toLowerCase (trim msg)) (i1 + 5) (i2 - 1))"
      and "key \<noteq> []"
      and "val = trim (slice_from (trim msg) (i2 + 6))"
  shows "key = toLowerCase (trim (slice (trim msg) (i1 + 5) (i2 - 1)))
       \<and> sent_options (send w h s msg force) = (sent_options s)(key \<mapsto> val)
       \<and> take 1 (emitted s (send w h s msg force)) = [AckSetoption key val]
       \<and> (exe s = None \<longrightarrow> emitted s (send w h s msg force) = [AckSetoption key val])
       \<and> emitted s0 (send_ack_setoption_to_main_process s0 name)
            = [AckSetoption (toLowerCase name)
                 (case sent_options s0 (toLowerCase name) of Some v \<Rightarrow> v | None \<Rightarrow> [])]"
proof -
  define s1 where "s1 = record_setoption s (trim msg)"
  have nh: "\<not> held_back h s msg force"
    using assms(2) by (auto simp: held_back_def)
  have s1: "s1 = emit (s\<lparr>sent_options := (sent_options s)(key \<mapsto> val)\<rparr>) (AckSetoption key val)"
    unfolding s1_def assms(6,8)
    by (rule record_setoption_parsed[OF assms(3) assms(4) assms(5) assms(7)[unfolded assms(6)]])
  have sd: "send w h s msg force = (if exe s = None then s1 else write_line w s1 (trim msg))"
    using assms(1) by (simp add: send_not_held[OF nh] s1_def)
  have k: "key = toLowerCase (trim (slice (trim msg) (i1 + 5) (i2 - 1)))"
    by (simp add: assms(6) toLowerCase_trim toLowerCase_slice)
  have so: "sent_options (send w h s msg force) = (sent_options s)(key \<mapsto> val)"
    by (simp add: sd s1 emit_def)
  have t1: "trace s1 = trace s @ [AckSetoption key val]"
    by (simp add: s1 emit_def)
  obtain evs where evs: "trace (write_line w s1 (trim msg)) = trace s1 @ evs"
    using write_line_events by blast
  have em: "emitted s (send w h s msg force)
              = (if exe s = None then [AckSetoption key val] else AckSetoption key val # evs)"
    using t1 evs by (simp add: sd emitted_def)
  have ack: "emitted s0 (send_ack_setoption_to_main_process s0 name)
            = [AckSetoption (toLowerCase name)
                 (case sent_options s0 (toLowerCase name) of Some v \<Rightarrow> v | None \<Rightarrow> [])]"
    by (simp add: ack_eq)
  show ?thesis
    using k so em ack by simp
qed

theorem setoption_recorded_and_acknowledged_witness:
  "sent_options (send demo_world demo_heap (NewEngine 0 0) ''setoption name Threads value 4'' False)
     = (sent_options (NewEngine 0 0))(''threads'' \<mapsto> ''4'')
   \<and> emitted (NewEngine 0 0)
        (send demo_world demo_heap (NewEngine 0 0) ''setoption name Threads value 4'' False)
      = [AckSetoption ''threads'' ''4'']"
proof -
  have t: "trim ''setoption name Threads value 4'' = ''setoption name Threads value 4''"
    by (simp add: trim_def is_space_def)
  have a: "startsWith (trim ''setoption name Threads value 4'') ''setoption''"
    unfolding t by (simp add: startsWith_def)
  have b: "params_node demo_heap (search_running (NewEngine 0 0)) = None \<or> False"
    by (simp add: params_node_def demo_heap_def NewEngine_def NoSearch_def)
  have l: "toLowerCase ''setoption name Threads value 4'' = ''setoption name threads value 4''"
    by (simp add: toLowerCase_def lower_char_def)
  have i1: "indexOf (toLowerCase (trim ''setoption name Threads value 4'')) ''name'' = Some 10"
    unfolding t l by code_simp
  have i2: "indexOf (toLowerCase (trim ''setoption name Threads value 4'')) ''value'' = Some 23"
    unfolding t l by code_simp
  have k: "''threads'' = trim (slice (toLowerCase (trim ''setoption name Threads value 4'')) (10 + 5) (23 - 1))"
    unfolding t l by (simp add: slice_def trim_def is_space_def)
  have v: "''4'' = trim (slice_from (trim ''setoption name Threads value 4'') (23 + 6))"
    unfolding t by (simp add: slice_from_def trim_def is_space_def)
  have e: "exe (NewEngine 0 0) = None"
    by (simp add: NewEngine_def)
  show ?thesis
    using setoption_recorded_and_acknowledged[OF a b i1 i2 _ k _ v, of demo_world]
    by (simp add: e)
qed

section \<open>Building search parameters\<close>

subsection \<open>The store under SearchParams\<close>

lemma SearchParams_None: "SearchParams w h None lim sm = (NoSearch, h)"
  by (simp add: SearchParams_def)

lemma SearchParams_Some:
  "SearchParams w h (Some n) lim sm = (length (params h), heap_with_search w h n lim sm)"
  by (cases sm)
     (simp_all add: SearchParams_def validate_searchmoves_def alloc_array_def freeze_array_def
        alloc_params_def heap_with_search_def validated_moves_def)

lemma heap_with_search_old:
  "q < length (params h) \<Longrightarrow> params_node (heap_with_search w h n lim sm) q = params_node h q"
  "q < length (params h) \<Longrightarrow> params_limit (heap_with_search w h n lim sm) q = params_limit h q"
  "a < length (arrays h) \<Longrightarrow> array_elems (heap_with_search w h n lim sm) a = array_elems h a"
  "a < length (arrays h) \<Longrightarrow> arrays (heap_with_search w h n lim sm) ! a = arrays h ! a"
  "q < length (params h) \<Longrightarrow> params (heap_with_search w h n lim sm) ! q = params h ! q"
  by (simp_all add: heap_with_search_def params_node_def params_limit_def array_elems_def nth_append)

lemma heap_ok_array:
  "heap_ok h \<Longrightarrow> q < length (params h) \<Longrightarrow> searchmoves (params h ! q) < length (arrays h)"
  by (simp add: heap_ok_def list_all_length)

lemma heap_with_search_old_moves:
  "heap_ok h \<Longrightarrow> q < length (params h) \<Longrightarrow>
   params_searchmoves (heap_with_search w h n lim sm) q = params_searchmoves h q"
  using heap_ok_array[of h q]
  by (simp add: heap_with_search_def params_searchmoves_def array_elems_def nth_append)

lemma heap_with_search_new:
  "params_node (heap_with_search w h n lim sm) (length (params h)) = Some n"
  "params_limit (heap_with_search w h n lim sm) (length (params h)) = lim"
  "params_searchmoves (heap_with_search w h n lim sm) (length (params h)) = validated_moves w h n sm"
  "array_frozen (heap_with_search w h n lim sm) (length (arrays h))"
  "searchmoves (params (heap_with_search w h n lim sm) ! length (params h)) = length (arrays h)"
  by (simp_all add: heap_with_search_def params_node_def params_limit_def params_searchmoves_def
        array_elems_def array_frozen_def nth_append)

lemma heap_ok_with_search: "heap_ok h \<Longrightarrow> heap_ok (heap_with_search w h n lim sm)"
  by (auto simp: heap_ok_def heap_with_search_def nth_append list_all_length)

lemma heap_ok_at_load: "heap_ok heap_at_load"
  by (simp add: heap_ok_def heap_at_load_def)

lemma heap_ok_NoSearch: "heap_ok h \<Longrightarrow> params_node h NoSearch = None"
  by (simp add: heap_ok_def params_node_def NoSearch_def)

lemma validated_moves_legal: "set (validated_moves w h n sm) \<subseteq> Collect (legal w n)"
  by (auto simp: validated_moves_def split: option.splits)


text \<open>
  Claim C9. With an empty node \<^verbatim>\<open>SearchParams\<close> returns \<^verbatim>\<open>NoSearch\<close> and leaves the
  store as it is. With a node it adds exactly one array and one object to the store: the
  array is new, frozen, and holds only moves that are legal at the node (the legal ones
  among the caller's moves, or none when the caller passed no array); the object holds
  the node, the limit and that array. Every array that was there before, the caller's
  among them, is the same as before, contents and frozen flag, and is not the array the
  object holds. Here \<^verbatim>\<open>validate_searchmoves\<close> is as the spec describes it.
\<close>

theorem SearchParams_fresh_and_validated:
  "SearchParams w h None lim sm = (NoSearch, h)
   \<and> SearchParams w h (Some n) lim sm = (length (params h), heap_with_search w h n lim sm)
   \<and> params_node (heap_with_search w h n lim sm) (length (params h)) = Some n
   \<and> params_limit (heap_with_search w h n lim sm) (length (params h)) = lim
   \<and> params_searchmoves (heap_with_search w h n lim sm) (length (params h))
        = validated_moves w h n sm
   \<and> set (validated_moves w h n sm) \<subseteq> Collect (legal w n)
   \<and> array_frozen (heap_with_search w h n lim sm)
        (searchmoves (params (heap_with_search w h n lim sm) ! length (params h)))
   \<and> (a < length (arrays h) \<longrightarrow>
         arrays (heap_with_search w h n lim sm) ! a = arrays h ! a
         \<and> searchmoves (params (heap_with_search w h n lim sm) ! length (params h)) \<noteq> a)
   \<and> (q < length (params h) \<longrightarrow> params (heap_with_search w h n lim sm) ! q = params h ! q)"
  by (simp add: SearchParams_None SearchParams_Some heap_with_search_new heap_with_search_old
        validated_moves_legal)

theorem SearchParams_fresh_and_validated_witness:
  "SearchParams demo_world demo_heap (Some 5) (Some 10000) (Some 3)
     = (3, heap_with_search demo_world demo_heap 5 (Some 10000) (Some 3))
   \<and> params_searchmoves (heap_with_search demo_world demo_heap 5 (Some 10000) (Some 3)) 3 = [''e2e4'']
   \<and> arrays (heap_with_search demo_world demo_heap 5 (Some 10000) (Some 3)) ! 3
       = \<lparr>elems = [''e2e4'', ''zzzz''], frozen = False\<rparr>
   \<and> searchmoves (params (heap_with_search demo_world demo_heap 5 (Some 10000) (Some 3)) ! 3) = 4"
proof -
  have l: "length (params demo_heap) = 3" "length (arrays demo_heap) = 4"
    by (simp_all add: demo_heap_def)
  have a: "(3::nat) < length (arrays demo_heap)"
    by (simp add: l)
  have v: "validated_moves demo_world demo_heap 5 (Some 3) = [''e2e4'']"
    by (simp add: validated_moves_def array_elems_def demo_heap_def demo_world_def)
  have o: "arrays demo_heap ! 3 = \<lparr>elems = [''e2e4'', ''zzzz''], frozen = False\<rparr>"
    by (simp add: demo_heap_def)
  show ?thesis
    using SearchParams_fresh_and_validated[of demo_world demo_heap "Some 10000" "Some 3" 5 3 0]
    by (simp add: l v o heap_with_search_new[of demo_world demo_heap 5 "Some 10000" "Some 3", unfolded l])
qed

section \<open>Asking for the search that is already desired\<close>

subsection \<open>set\_search\_desired\<close>

lemma set_search_desired_early:
  "\<not> ever_received_uciok s \<or> \<not> ever_received_readyok s \<Longrightarrow>
   set_search_desired cfg w h s nd lim sm
     = Inr (h, emit s (ConsoleLog ''set_search_desired() aborted - too early''))"
  by (auto simp: set_search_desired_def)

lemma set_search_desired_ready:
  assumes "ever_received_uciok s" and "ever_received_readyok s"
      and "SearchParams w h nd lim sm = (p, h1)"
  shows "set_search_desired cfg w h s nd lim sm =
     (if same_search h1 (search_desired s) p then Inr (h1, s)
      else if params_node h1 (search_running s) \<noteq> None
      then Inr (h1,
             if unresolved_stop_time s = None \<or> unresolved_stop_time s = Some 0
             then (send w h1 (s\<lparr>search_desired := p\<rparr>) ''stop'' False)
                    \<lparr>unresolved_stop_time := Some (performance_now w)\<rparr>
             else send w h1 (s\<lparr>search_desired := p\<rparr>) ''stop'' False)
      else if params_node h1 p \<noteq> None
      then with_heap h1 (send_desired cfg w h1 (s\<lparr>search_desired := p\<rparr>))
      else Inr (h1, s\<lparr>search_desired := p\<rparr>))"
  using assms
  by (simp add: set_search_desired_def same_search_def CompareArrays_def with_heap_def Let_def
           del: not_None_eq split: sum.splits)


lemma validated_moves_later:
  assumes "\<forall>a. sm = Some a \<longrightarrow> a < length (arrays h)"
  shows "validated_moves w (heap_with_search w' h n' lim' sm') n sm = validated_moves w h n sm"
  using assms by (cases sm) (simp_all add: validated_moves_def heap_with_search_old)

lemma heap_with_search_lengths:
  "length (params (heap_with_search w h n lim sm)) = Suc (length (params h))"
  "length (arrays (heap_with_search w h n lim sm)) = Suc (length (arrays h))"
  by (simp_all add: heap_with_search_def)

text \<open>
  After a second construction from the same arguments, the first object and the second
  compare equal.
\<close>

lemma same_search_twice:
  assumes ok: "heap_ok h" and arr: "\<forall>a. sm = Some a \<longrightarrow> a < length (arrays h)"
      and h1: "h1 = heap_with_search w h n lim sm" and h2: "h2 = heap_with_search w h1 n lim sm"
  shows "same_search h2 (length (params h)) (length (params h1))"
proof -
  have ok1: "heap_ok h1" unfolding h1 using ok by (rule heap_ok_with_search)
  have lt: "length (params h) < length (params h1)"
    by (simp add: h1 heap_with_search_lengths)
  have a: "params_node h2 (length (params h)) = params_node h1 (length (params h))"
       "params_limit h2 (length (params h)) = params_limit h1 (length (params h))"
       "params_searchmoves h2 (length (params h)) = params_searchmoves h1 (length (params h))"
    unfolding h2
    by (simp_all add: heap_with_search_old(1,2)[OF lt] heap_with_search_old_moves[OF ok1 lt])
  have b: "params_node h1 (length (params h)) = Some n" "params_limit h1 (length (params h)) = lim"
       "params_searchmoves h1 (length (params h)) = validated_moves w h n sm"
    unfolding h1 by (simp_all add: heap_with_search_new)
  have c: "params_node h2 (length (params h1)) = Some n" "params_limit h2 (length (params h1)) = lim"
       "params_searchmoves h2 (length (params h1)) = validated_moves w h1 n sm"
    unfolding h2 by (simp_all add: heap_with_search_new)
  have d: "validated_moves w h1 n sm = validated_moves w h n sm"
    unfolding h1 by (rule validated_moves_later[OF arr])
  show ?thesis
    by (simp add: same_search_def a b c d)
qed

lemma same_search_old:
  assumes ok: "heap_ok h" and d: "d < length (params h)"
      and arr: "\<forall>a. sm = Some a \<longrightarrow> a < length (arrays h)"
      and h1: "h1 = heap_with_search w h n lim sm" and h2: "h2 = heap_with_search w h1 n lim sm"
      and same: "same_search h1 d (length (params h))"
  shows "same_search h2 d (length (params h1))"
proof -
  have ok1: "heap_ok h1" unfolding h1 using ok by (rule heap_ok_with_search)
  have d1: "d < length (params h1)"
    using d by (simp add: h1 heap_with_search_lengths)
  have a: "params_node h2 d = params_node h1 d" "params_limit h2 d = params_limit h1 d"
       "params_searchmoves h2 d = params_searchmoves h1 d"
    unfolding h2 by (simp_all add: heap_with_search_old(1,2)[OF d1] heap_with_search_old_moves[OF ok1 d1])
  have b: "params_node h1 (length (params h)) = Some n" "params_limit h1 (length (params h)) = lim"
       "params_searchmoves h1 (length (params h)) = validated_moves w h n sm"
    unfolding h1 by (simp_all add: heap_with_search_new)
  have c: "params_node h2 (length (params h1)) = Some n" "params_limit h2 (length (params h1)) = lim"
       "params_searchmoves h2 (length (params h1)) = validated_moves w h1 n sm"
    unfolding h2 by (simp_all add: heap_with_search_new)
  have e: "validated_moves w h1 n sm = validated_moves w h n sm"
    unfolding h1 by (rule validated_moves_later[OF arr])
  show ?thesis
    using same by (simp add: same_search_def a b c e)
qed

lemma stop_branch_fields:
  "search_desired (if c then (send w h s m f)\<lparr>unresolved_stop_time := t\<rparr> else send w h s m f)
     = search_desired s"
  "ever_received_uciok (if c then (send w h s m f)\<lparr>unresolved_stop_time := t\<rparr> else send w h s m f)
     = ever_received_uciok s"
  "ever_received_readyok (if c then (send w h s m f)\<lparr>unresolved_stop_time := t\<rparr> else send w h s m f)
     = ever_received_readyok s"
  by simp_all

text \<open>The second of two calls with the same arguments, when the first built an object.\<close>

lemma set_search_desired_twice_node:
  assumes u: "ever_received_uciok s" and r: "ever_received_readyok s"
      and ok: "heap_ok h" and refs: "refs_ok h s"
      and arr: "\<forall>a. sm = Some a \<longrightarrow> a < length (arrays h)"
  shows "\<exists>h1 s1 h2. set_search_desired cfg w h s (Some n) lim sm = Inr (h1, s1)
           \<and> set_search_desired cfg w h1 s1 (Some n) lim sm = Inr (h2, s1)"
proof -
  define h1 where "h1 = heap_with_search w h n lim sm"
  define h2 where "h2 = heap_with_search w h1 n lim sm"
  define p1 where "p1 = length (params h)"
  define p2 where "p2 = length (params h1)"
  have sp1: "SearchParams w h (Some n) lim sm = (p1, h1)"
    by (simp add: SearchParams_Some p1_def h1_def)
  have sp2: "SearchParams w h1 (Some n) lim sm = (p2, h2)"
    by (simp add: SearchParams_Some p2_def h2_def)
  have ok1: "heap_ok h1" unfolding h1_def using ok by (rule heap_ok_with_search)
  have ok2: "heap_ok h2" unfolding h2_def using ok1 by (rule heap_ok_with_search)
  have n1: "params_node h1 p1 = Some n"
    by (simp add: h1_def p1_def heap_with_search_new)
  have n2: "params_node h2 p2 = Some n"
    by (simp add: h2_def p2_def heap_with_search_new)
  have first: "set_search_desired cfg w h s (Some n) lim sm =
     (if same_search h1 (search_desired s) p1 then Inr (h1, s)
      else if params_node h1 (search_running s) \<noteq> None
      then Inr (h1,
             if unresolved_stop_time s = None \<or> unresolved_stop_time s = Some 0
             then (send w h1 (s\<lparr>search_desired := p1\<rparr>) ''stop'' False)
                    \<lparr>unresolved_stop_time := Some (performance_now w)\<rparr>
             else send w h1 (s\<lparr>search_desired := p1\<rparr>) ''stop'' False)
      else with_heap h1 (send_desired cfg w h1 (s\<lparr>search_desired := p1\<rparr>)))"
    using set_search_desired_ready[OF u r sp1, of cfg] n1 by simp
  have twice: "same_search h2 p1 p2"
    unfolding p1_def p2_def by (rule same_search_twice[OF ok arr h1_def h2_def])
  have second: "set_search_desired cfg w h1 s1 (Some n) lim sm = Inr (h2, s1)"
    if "ever_received_uciok s1" "ever_received_readyok s1" "search_desired s1 = p1" for s1
    using set_search_desired_ready[OF that(1,2) sp2, of cfg] twice that(3) by simp
  show ?thesis
  proof (cases "same_search h1 (search_desired s) p1")
    case True
    have d: "search_desired s < length (params h)"
      using refs by (simp add: refs_ok_def)
    have "same_search h2 (search_desired s) p2"
      unfolding p2_def
      by (rule same_search_old[OF ok d arr h1_def h2_def True[unfolded p1_def]])
    then have "set_search_desired cfg w h1 s (Some n) lim sm = Inr (h2, s)"
      using set_search_desired_ready[OF u r sp2, of cfg] by simp
    then show ?thesis
      using first True by simp
  next
    case False
    show ?thesis
    proof (cases "params_node h1 (search_running s)")
      case (Some m)
      define s1 where "s1 = (if unresolved_stop_time s = None \<or> unresolved_stop_time s = Some 0
             then (send w h1 (s\<lparr>search_desired := p1\<rparr>) ''stop'' False)
                    \<lparr>unresolved_stop_time := Some (performance_now w)\<rparr>
             else send w h1 (s\<lparr>search_desired := p1\<rparr>) ''stop'' False)"
      have f: "set_search_desired cfg w h s (Some n) lim sm = Inr (h1, s1)"
        using first False Some by (simp add: s1_def)
      have "ever_received_uciok s1" "ever_received_readyok s1" "search_desired s1 = p1"
        using u r by (simp_all add: s1_def)
      then show ?thesis
        using f second by blast
    next
      case None
      define s0 where "s0 = s\<lparr>search_desired := p1\<rparr>"
      have f: "set_search_desired cfg w h s (Some n) lim sm
                 = with_heap h1 (send_desired cfg w h1 s0)"
        using first False None by (simp add: s0_def)
      have run0: "params_node h1 (search_running s0) = None"
        using None by (simp add: s0_def)
      have des0: "params_node h1 (search_desired s0) = Some n"
        using n1 by (simp add: s0_def)
      show ?thesis
      proof (cases "\<not> destroyed w n \<and> terminal_reason w n = []")
        case True
        obtain s1 where s1: "send_desired cfg w h1 s0 = Inr s1" "search_desired s1 = search_desired s0"
           "ever_received_uciok s1 = ever_received_uciok s0"
           "ever_received_readyok s1 = ever_received_readyok s0"
          using send_desired_launches[OF run0 des0, of w cfg] True by simp
        have "ever_received_uciok s1" "ever_received_readyok s1" "search_desired s1 = p1"
          using s1 u r by (simp_all add: s0_def)
        then have "set_search_desired cfg w h1 s1 (Some n) lim sm = Inr (h2, s1)"
          by (rule second)
        then show ?thesis
          using f s1(1) by (simp add: with_heap_def)
      next
        case False
        then have nl: "\<not> launches w h1 s0"
          using des0 by (auto simp: launches_def)
        define s1 where "s1 = s\<lparr>search_running := NoSearch, search_desired := NoSearch\<rparr>"
        have a1: "send_desired cfg w h1 s0 = Inr s1"
          using send_desired_abandons[OF run0 nl, of cfg] by (simp add: s0_def s1_def)
        have u1: "ever_received_uciok s1" "ever_received_readyok s1"
          using u r by (simp_all add: s1_def)
        have ns2: "params_node h2 NoSearch = None"
          using ok2 by (rule heap_ok_NoSearch)
        have nsame: "\<not> same_search h2 (search_desired s1) p2"
          using ns2 n2 by (simp add: same_search_def s1_def)
        have run1: "params_node h2 (search_running (s1\<lparr>search_desired := p2\<rparr>)) = None"
          using ns2 by (simp add: s1_def)
        have nl2: "\<not> launches w h2 (s1\<lparr>search_desired := p2\<rparr>)"
          using False n2 by (auto simp: launches_def)
        have a2: "send_desired cfg w h2 (s1\<lparr>search_desired := p2\<rparr>) = Inr s1"
          using send_desired_abandons[OF run1 nl2, of cfg] by (simp add: s1_def)
        have "set_search_desired cfg w h1 s1 (Some n) lim sm = Inr (h2, s1)"
          using set_search_desired_ready[OF u1 sp2, of cfg] nsame run1 n2 a2
          by (simp add: with_heap_def s1_def)
        then show ?thesis
          using f a1 by (simp add: with_heap_def)
      qed
    qed
  qed
qed


lemma set_search_desired_twice_null:
  assumes u: "ever_received_uciok s" and r: "ever_received_readyok s" and ok: "heap_ok h"
  shows "\<exists>s1. set_search_desired cfg w h s None lim sm = Inr (h, s1)
           \<and> set_search_desired cfg w h s1 None lim sm = Inr (h, s1)"
proof -
  have sp: "SearchParams w h None lim sm = (NoSearch, h)"
    by (rule SearchParams_None)
  have ns: "params_node h NoSearch = None"
    using ok by (rule heap_ok_NoSearch)
  have second: "set_search_desired cfg w h s1 None lim sm = Inr (h, s1)"
    if "ever_received_uciok s1" "ever_received_readyok s1" "search_desired s1 = NoSearch" for s1
    using set_search_desired_ready[OF that(1,2) sp, of cfg] that(3) by (simp add: same_search_def)
  show ?thesis
  proof (cases "same_search h (search_desired s) NoSearch")
    case True
    then have "set_search_desired cfg w h s None lim sm = Inr (h, s)"
      using set_search_desired_ready[OF u r sp, of cfg] by simp
    then show ?thesis by simp
  next
    case False
    define s1 where "s1 =
      (if params_node h (search_running s) \<noteq> None
       then (if unresolved_stop_time s = None \<or> unresolved_stop_time s = Some 0
             then (send w h (s\<lparr>search_desired := NoSearch\<rparr>) ''stop'' False)
                    \<lparr>unresolved_stop_time := Some (performance_now w)\<rparr>
             else send w h (s\<lparr>search_desired := NoSearch\<rparr>) ''stop'' False)
       else s\<lparr>search_desired := NoSearch\<rparr>)"
    have f: "set_search_desired cfg w h s None lim sm = Inr (h, s1)"
      using set_search_desired_ready[OF u r sp, of cfg] False ns
      by (simp add: s1_def del: not_None_eq)
    have "ever_received_uciok s1" "ever_received_readyok s1" "search_desired s1 = NoSearch"
      using u r by (simp_all add: s1_def)
    then have "set_search_desired cfg w h s1 None lim sm = Inr (h, s1)"
      by (rule second)
    then show ?thesis
      using f by simp
  qed
qed


text \<open>
  Claim C10. After both handshakes, a call of \<^verbatim>\<open>set_search_desired\<close> whose parameters
  have the node, the limit and the moves of the desired search returns the state of the
  driver unchanged in every field: nothing is sent, nothing queued. Hence of two
  consecutive calls with the same arguments the second never changes the state of the
  driver, whatever the first did; the first never throws.
\<close>

theorem same_search_is_noop:
  assumes "ever_received_uciok s" and "ever_received_readyok s"
  shows "(SearchParams w h nd lim sm = (p, h1) \<and> same_search h1 (search_desired s) p
            \<longrightarrow> set_search_desired cfg w h s nd lim sm = Inr (h1, s))
       \<and> (heap_ok h \<and> refs_ok h s \<and> (\<forall>a. sm = Some a \<longrightarrow> a < length (arrays h))
            \<longrightarrow> (\<exists>h' s' h''. set_search_desired cfg w h s nd lim sm = Inr (h', s')
                   \<and> set_search_desired cfg w h' s' nd lim sm = Inr (h'', s')))"
proof (intro conjI impI)
  assume a: "SearchParams w h nd lim sm = (p, h1) \<and> same_search h1 (search_desired s) p"
  then show "set_search_desired cfg w h s nd lim sm = Inr (h1, s)"
    using set_search_desired_ready[OF assms, of w h nd lim sm p h1 cfg] by simp
next
  assume b: "heap_ok h \<and> refs_ok h s \<and> (\<forall>a. sm = Some a \<longrightarrow> a < length (arrays h))"
  show "\<exists>h' s' h''. set_search_desired cfg w h s nd lim sm = Inr (h', s')
          \<and> set_search_desired cfg w h' s' nd lim sm = Inr (h'', s')"
  proof (cases nd)
    case None
    then show ?thesis
      using set_search_desired_twice_null[OF assms, of h cfg w lim sm] b by blast
  next
    case (Some n)
    then show ?thesis
      using set_search_desired_twice_node[OF assms, of h sm cfg w n lim] b by blast
  qed
qed

theorem same_search_is_noop_witness:
  "ever_received_uciok demo_running \<and> ever_received_readyok demo_running
   \<and> same_search (heap_with_search demo_world demo_heap 5 (Some 10000) None)
        (search_desired demo_running) 3
   \<and> set_search_desired demo_config demo_world demo_heap demo_running (Some 5) (Some 10000) None
       = Inr (heap_with_search demo_world demo_heap 5 (Some 10000) None, demo_running)"
proof -
  have u: "ever_received_uciok demo_running" "ever_received_readyok demo_running"
    by (simp_all add: demo_running_def demo_idle_def NewEngine_def)
  have l: "length (params demo_heap) = 3"
    by (simp add: demo_heap_def)
  have sp: "SearchParams demo_world demo_heap (Some 5) (Some 10000) None
              = (3, heap_with_search demo_world demo_heap 5 (Some 10000) None)"
    by (simp add: SearchParams_Some l)
  have d: "search_desired demo_running = Suc 0"
    by (simp add: demo_running_def demo_idle_def NewEngine_def)
  have old: "params_node (heap_with_search demo_world demo_heap 5 (Some 10000) None) (Suc 0) = Some 5"
     "params_limit (heap_with_search demo_world demo_heap 5 (Some 10000) None) (Suc 0) = Some 10000"
     "params_searchmoves (heap_with_search demo_world demo_heap 5 (Some 10000) None) (Suc 0) = []"
    by (simp_all add: heap_with_search_def demo_heap_def params_node_def params_limit_def
          params_searchmoves_def array_elems_def)
  have new: "params_node (heap_with_search demo_world demo_heap 5 (Some 10000) None) 3 = Some 5"
     "params_limit (heap_with_search demo_world demo_heap 5 (Some 10000) None) 3 = Some 10000"
     "params_searchmoves (heap_with_search demo_world demo_heap 5 (Some 10000) None) 3 = []"
    using heap_with_search_new(1,2,3)[of demo_world demo_heap 5 "Some 10000" None]
    by (simp_all add: l validated_moves_def)
  have same: "same_search (heap_with_search demo_world demo_heap 5 (Some 10000) None)
                (search_desired demo_running) 3"
    by (simp add: same_search_def d old new)
  show ?thesis
    using same_search_is_noop[OF u, of demo_world demo_heap "Some 5" "Some 10000" None 3
            "heap_with_search demo_world demo_heap 5 (Some 10000) None" demo_config]
          u sp same
    by simp
qed

section \<open>Launching the desired search\<close>

lemma position_command_eq:
  "position_command w s n =
     ''position ''
     @ (if \<not> in_960_mode s \<and> root_fen w n True = start_fen then ''startpos''
        else ''fen '' @ root_fen w n (\<not> in_960_mode s))
     @ (if (if in_960_mode s then history w n else history_old_format w n) = [] then []
        else '' moves '' @ join_sp (if in_960_mode s then history w n else history_old_format w n))"
  by (simp add: position_command_def Let_def)

lemma go_command_eq:
  "go_command cfg h s =
     (case params_limit h (search_desired s) of
        None \<Rightarrow> ''go infinite''
      | Some k \<Rightarrow>
          if k = 0 then ''go infinite''
          else if use_movetime cfg then ''go movetime '' @ show_int k
          else ''go nodes '' @ show_int k)
     @ (if searchmoves_buttons cfg \<and> params_searchmoves h (search_desired s) \<noteq> []
        then '' searchmoves'' @ concat (map (\<lambda>m. '' '' @ m) (params_searchmoves h (search_desired s)))
        else [])"
proof -
  have e: "((@) '' '') = ((#) CHR '' '')"
    by (rule ext) simp
  show ?thesis
    by (simp add: go_command_def Let_def foldl_glue e)
qed

text \<open>
  Claim C3. When \<^verbatim>\<open>send_desired\<close> runs with no search running and a desired node that
  is there, not destroyed and not terminal, it returns, and afterwards the running
  search is the desired object. With a subprocess and a pipe in good health it writes
  exactly two lines, each followed by a newline: the trimmed \<^verbatim>\<open>position\<close> line, then
  the trimmed \<^verbatim>\<open>go\<close> line; with no subprocess it writes nothing. The \<^verbatim>\<open>position\<close> line
  is \<^verbatim>\<open>position startpos\<close> outside 960 mode when the FEN of the root is the initial
  position, \<^verbatim>\<open>position fen\<close> and that FEN otherwise, with the moves appended when the
  history is not empty. The \<^verbatim>\<open>go\<close> line is \<^verbatim>\<open>go infinite\<close> for an empty limit (and for
  the limit 0, which \<^verbatim>\<open>!n\<close> takes for empty), \<^verbatim>\<open>go movetime\<close> with the limit when the
  configuration asks for it, \<^verbatim>\<open>go nodes\<close> with the limit otherwise, with the
  searchmoves appended when the configuration allows them and there are some.
\<close>

theorem send_desired_position_then_go:
  assumes "params_node h (search_running s) = None"
      and "params_node h (search_desired s) = Some n"
      and "\<not> destroyed w n" and "terminal_reason w n = []"
  shows "\<exists>s'. send_desired cfg w h s = Inr s'
           \<and> search_running s' = search_desired s \<and> search_desired s' = search_desired s
           \<and> (exe s \<noteq> None \<longrightarrow> pipe_never_throws w \<longrightarrow>
                 stdin_chunks (emitted s s')
                   = wire (trim (position_command w s n)) @ wire (trim (go_command cfg h s)))
           \<and> (exe s = None \<longrightarrow> stdin_chunks (emitted s s') = [])
           \<and> position_command w s n =
                ''position ''
                @ (if \<not> in_960_mode s \<and> root_fen w n True = start_fen then ''startpos''
                   else ''fen '' @ root_fen w n (\<not> in_960_mode s))
                @ (if (if in_960_mode s then history w n else history_old_format w n) = [] then []
                   else '' moves ''
                        @ join_sp (if in_960_mode s then history w n else history_old_format w n))
           \<and> go_command cfg h s =
                (case params_limit h (search_desired s) of
                   None \<Rightarrow> ''go infinite''
                 | Some k \<Rightarrow>
                     if k = 0 then ''go infinite''
                     else if use_movetime cfg then ''go movetime '' @ show_int k
                     else ''go nodes '' @ show_int k)
                @ (if searchmoves_buttons cfg \<and> params_searchmoves h (search_desired s) \<noteq> []
                   then '' searchmoves''
                        @ concat (map (\<lambda>m. '' '' @ m) (params_searchmoves h (search_desired s)))
                   else [])"
proof -
  have ne: "exe s = None \<longrightarrow> stdin_chunks (emitted s (launched cfg w h s n)) = []"
    using launched_noexe by blast
  have ok: "exe s \<noteq> None \<longrightarrow> pipe_never_throws w \<longrightarrow>
                 stdin_chunks (emitted s (launched cfg w h s n))
                   = wire (trim (position_command w s n)) @ wire (trim (go_command cfg h s))"
    using launched_ok by blast
  show ?thesis
    by (intro exI[of _ "launched cfg w h s n"] conjI launched_eq[OF assms] launched_fields(1,2)
          ok ne position_command_eq go_command_eq)
qed

theorem send_desired_position_then_go_witness:
  "(\<exists>s'. send_desired demo_config demo_world demo_heap (demo_idle\<lparr>search_desired := 1\<rparr>) = Inr s'
       \<and> search_running s' = 1
       \<and> stdin_chunks (emitted (demo_idle\<lparr>search_desired := 1\<rparr>) s')
           = [''position startpos'', [CHR 0x0A], ''go nodes 10000'', [CHR 0x0A]])
   \<and> (\<exists>s'. send_desired demo_config demo_world demo_heap (demo_idle\<lparr>search_desired := 2\<rparr>) = Inr s'
       \<and> search_running s' = 2
       \<and> stdin_chunks (emitted (demo_idle\<lparr>search_desired := 2\<rparr>) s')
           = [''position startpos'', [CHR 0x0A], ''go infinite searchmoves e2e4'', [CHR 0x0A]])"
proof -
  have pipe: "pipe_never_throws demo_world"
    by (simp add: pipe_never_throws_def demo_world_def)
  have live: "\<not> destroyed demo_world 5" "terminal_reason demo_world 5 = []"
      "\<not> destroyed demo_world 6" "terminal_reason demo_world 6 = []"
    by (simp_all add: demo_world_def)
  have n1: "show_nat (Suc 0) = ''1''"
    by (subst show_nat.simps) (simp add: digit_char_def)
  have n2: "show_nat 10 = ''10''"
    by (subst show_nat.simps) (simp add: digit_char_def n1)
  have n3: "show_nat 100 = ''100''"
    by (subst show_nat.simps) (simp add: digit_char_def n2)
  have n4: "show_nat 1000 = ''1000''"
    by (subst show_nat.simps) (simp add: digit_char_def n3)
  have n5: "show_nat 10000 = ''10000''"
    by (subst show_nat.simps) (simp add: digit_char_def n4)
  have ten: "show_int 10000 = ''10000''"
    by (simp add: show_int_def n5)
  have tp: "trim ''position startpos'' = ''position startpos''"
      "trim ''go nodes 10000'' = ''go nodes 10000''"
      "trim ''go infinite searchmoves e2e4'' = ''go infinite searchmoves e2e4''"
    by (simp_all add: trim_def is_space_def)
  have one: "\<exists>s'. send_desired demo_config demo_world demo_heap (demo_idle\<lparr>search_desired := 1\<rparr>) = Inr s'
       \<and> search_running s' = 1
       \<and> stdin_chunks (emitted (demo_idle\<lparr>search_desired := 1\<rparr>) s')
           = [''position startpos'', [CHR 0x0A], ''go nodes 10000'', [CHR 0x0A]]"
  proof -
    let ?s = "demo_idle\<lparr>search_desired := 1\<rparr>"
    have r: "params_node demo_heap (search_running ?s) = None"
      by (simp add: params_node_def demo_heap_def demo_idle_def NewEngine_def NoSearch_def)
    have d: "params_node demo_heap (search_desired ?s) = Some 5"
      by (simp add: params_node_def demo_heap_def)
    have e: "exe ?s \<noteq> None"
      by (simp add: demo_idle_def)
    have p: "position_command demo_world ?s 5 = ''position startpos''"
      by (simp add: position_command_def in_960_mode_def demo_idle_def NewEngine_def demo_world_def)
    have g: "go_command demo_config demo_heap ?s = ''go nodes 10000''"
      by (simp add: go_command_def params_limit_def params_searchmoves_def array_elems_def
            demo_heap_def demo_config_def ten)
    obtain s' where a: "send_desired demo_config demo_world demo_heap ?s = Inr s'"
        and b: "search_running s' = search_desired ?s"
        and c: "exe ?s \<noteq> None \<longrightarrow> pipe_never_throws demo_world \<longrightarrow>
                 stdin_chunks (emitted ?s s')
                   = wire (trim (position_command demo_world ?s 5))
                     @ wire (trim (go_command demo_config demo_heap ?s))"
      using send_desired_position_then_go[OF r d live(1,2), of demo_config]
      by (elim exE conjE) (rule that, assumption+)
    have "stdin_chunks (emitted ?s s')
            = wire (trim (position_command demo_world ?s 5))
              @ wire (trim (go_command demo_config demo_heap ?s))"
      using c e pipe by blast
    then have "stdin_chunks (emitted ?s s')
            = [''position startpos'', [CHR 0x0A], ''go nodes 10000'', [CHR 0x0A]]"
      by (simp only: p g tp wire_def append_Cons append_Nil)
    moreover have "search_running s' = 1"
      using b by simp
    ultimately show ?thesis
      using a by blast
  qed
  have two: "\<exists>s'. send_desired demo_config demo_world demo_heap (demo_idle\<lparr>search_desired := 2\<rparr>) = Inr s'
       \<and> search_running s' = 2
       \<and> stdin_chunks (emitted (demo_idle\<lparr>search_desired := 2\<rparr>) s')
           = [''position startpos'', [CHR 0x0A], ''go infinite searchmoves e2e4'', [CHR 0x0A]]"
  proof -
    let ?s = "demo_idle\<lparr>search_desired := 2\<rparr>"
    have r: "params_node demo_heap (search_running ?s) = None"
      by (simp add: params_node_def demo_heap_def demo_idle_def NewEngine_def NoSearch_def)
    have d: "params_node demo_heap (search_desired ?s) = Some 6"
      by (simp add: params_node_def demo_heap_def)
    have e: "exe ?s \<noteq> None"
      by (simp add: demo_idle_def)
    have p: "position_command demo_world ?s 6 = ''position startpos''"
      by (simp add: position_command_def in_960_mode_def demo_idle_def NewEngine_def demo_world_def)
    have g: "go_command demo_config demo_heap ?s = ''go infinite searchmoves e2e4''"
      by (simp add: go_command_def params_limit_def params_searchmoves_def array_elems_def
            demo_heap_def demo_config_def)
    obtain s' where a: "send_desired demo_config demo_world demo_heap ?s = Inr s'"
        and b: "search_running s' = search_desired ?s"
        and c: "exe ?s \<noteq> None \<longrightarrow> pipe_never_throws demo_world \<longrightarrow>
                 stdin_chunks (emitted ?s s')
                   = wire (trim (position_command demo_world ?s 6))
                     @ wire (trim (go_command demo_config demo_heap ?s))"
      using send_desired_position_then_go[OF r d live(3,4), of demo_config]
      by (elim exE conjE) (rule that, assumption+)
    have "stdin_chunks (emitted ?s s')
            = wire (trim (position_command demo_world ?s 6))
              @ wire (trim (go_command demo_config demo_heap ?s))"
      using c e pipe by blast
    then have "stdin_chunks (emitted ?s s')
            = [''position startpos'', [CHR 0x0A], ''go infinite searchmoves e2e4'', [CHR 0x0A]]"
      by (simp only: p g tp wire_def append_Cons append_Nil)
    moreover have "search_running s' = 2"
      using b by simp
    ultimately show ?thesis
      using a by blast
  qed
  show ?thesis
    using one two by blast
qed

end
